theory Spec2Isabelle
  imports Main "HOL-Library.AList" "HOL-Library.Multiset"
begin

section \<open>Strings\<close>

text \<open>
  A TypeScript string is a sequence of UTF-16 code units. It is modelled as the list of
  its code units, so that the ellipsis placeholder (one code unit, U+2026) differs from
  three full stops, and \<open>trim\<close> can strip the white space of the language, which is
  not all ASCII.
\<close>

type_synonym jsstring = "nat list"

definition ascii :: "string \<Rightarrow> jsstring" where
  "ascii s = map of_char s"

text \<open>The ellipsis \<open>U+2026\<close>, the three full stops of PracticeView, the block
  separator (two line feeds), the blank marker of a masked context and the colon of a
  card identity.\<close>

definition ellipsis :: jsstring where
  "ellipsis = [8230]"

definition three_dots :: jsstring where
  "three_dots = [46, 46, 46]"

definition block_separator :: jsstring where
  "block_separator = [10, 10]"

definition blank_marker :: jsstring where
  "blank_marker = [95, 95, 95, 95]"

definition colon :: jsstring where
  "colon = [58]"

text \<open>\<open>String.prototype.trim\<close> removes white space and line terminators from both
  ends: TAB, LF, VT, FF, CR, SP, NBSP, U+1680, U+2000 to U+200A, U+2028, U+2029, U+202F,
  U+205F, U+3000 and U+FEFF.\<close>

definition is_js_space :: "nat \<Rightarrow> bool" where
  "is_js_space c \<longleftrightarrow>
     c = 9 \<or> c = 10 \<or> c = 11 \<or> c = 12 \<or> c = 13 \<or> c = 32 \<or> c = 160 \<or> c = 5760 \<or>
     (8192 \<le> c \<and> c \<le> 8202) \<or> c = 8232 \<or> c = 8233 \<or> c = 8239 \<or> c = 8287 \<or>
     c = 12288 \<or> c = 65279"

definition js_trim :: "jsstring \<Rightarrow> jsstring" where
  "js_trim s = rev (dropWhile is_js_space (rev (dropWhile is_js_space s)))"


section \<open>The data model (bokaTypes.ts, registers.ts)\<close>

datatype RegisterId = formal | literary | neutral | casual | colloquial | vulgar

record Variant =
  v_id :: jsstring
  v_register :: RegisterId
  v_text :: jsstring
  v_note :: "jsstring option"
  v_difficulty :: "int option"

record Span =
  span_id :: jsstring
  sourceText :: jsstring
  variants :: "Variant list"
  activeVariantIndex :: "int option"

text \<open>\<open>activeVariantIndex\<close> is declared a number. The merge below can store
  \<open>undefined\<close> there; that is \<open>None\<close>.\<close>

datatype DocToken = TextTok jsstring | SpanTok jsstring

text \<open>
  \<open>Record<string, T>\<close> is an object used as a dictionary. It is modelled as the list
  of its entries in the order \<open>Object.entries\<close> enumerates them; the keys of an object
  are distinct.
\<close>

type_synonym 'v jsrecord = "(jsstring \<times> 'v) list"

definition wf_record :: "'v jsrecord \<Rightarrow> bool" where
  "wf_record r \<longleftrightarrow> distinct (map fst r)"

record InteractiveDoc =
  tokens :: "DocToken list"
  spans :: "Span jsrecord"

text \<open>\<open>xs[i]\<close> on an array is \<open>undefined\<close> outside the range of the array.\<close>

definition js_index :: "'a list \<Rightarrow> int \<Rightarrow> 'a option" where
  "js_index xs i = (if 0 \<le> i \<and> i < int (length xs) then Some (xs ! nat i) else None)"

text \<open>\<open>xs[undefined]\<close> reads the property named \<open>undefined\<close>, which an array does not
  have.\<close>

definition js_index_opt :: "'a list \<Rightarrow> int option \<Rightarrow> 'a option" where
  "js_index_opt xs i = (case i of None \<Rightarrow> None | Some n \<Rightarrow> js_index xs n)"

section \<open>Block segmentation (CompilerView.docBlocks, PracticeView.phrases)\<close>

definition is_separator :: "DocToken \<Rightarrow> bool" where
  "is_separator tok = (case tok of TextTok v \<Rightarrow> v = block_separator | SpanTok _ \<Rightarrow> False)"

text \<open>The loop over \<open>doc.tokens\<close> with its two variables \<open>blocks\<close> and \<open>cur\<close>, and
  the last \<open>blocks.push(cur)\<close> after it. CompilerView, PracticeView and ReviewView
  each hold a copy of this loop.\<close>

fun blocks_loop :: "DocToken list \<Rightarrow> DocToken list list \<Rightarrow> DocToken list \<Rightarrow> DocToken list list" where
  "blocks_loop [] blocks cur = blocks @ [cur]"
| "blocks_loop (tok # toks) blocks cur =
     (if is_separator tok then blocks_loop toks (blocks @ [cur]) []
      else blocks_loop toks blocks (cur @ [tok]))"

definition split_blocks :: "DocToken list \<Rightarrow> DocToken list list" where
  "split_blocks toks = blocks_loop toks [] []"

definition docBlocks :: "InteractiveDoc option \<Rightarrow> DocToken list list" where
  "docBlocks doc = (case doc of None \<Rightarrow> [] | Some d \<Rightarrow> split_blocks (tokens d))"

text \<open>The blocks put together again, a separator token between two neighbours.\<close>

fun rejoin :: "DocToken list list \<Rightarrow> DocToken list" where
  "rejoin [] = []"
| "rejoin [b] = b"
| "rejoin (b # bs) = b @ TextTok block_separator # rejoin bs"


section \<open>Array and object helpers of the language\<close>

text \<open>\<open>Array.prototype.findIndex\<close> gives the index of the first element that satisfies
  the predicate, and \<open>-1\<close> when there is none; \<open>Array.prototype.find\<close> is
  \<^const>\<open>List.find\<close>, with \<open>None\<close> for \<open>undefined\<close>.\<close>

fun js_findIndex :: "('a \<Rightarrow> bool) \<Rightarrow> 'a list \<Rightarrow> int" where
  "js_findIndex P [] = -1"
| "js_findIndex P (x # xs) =
     (if P x then 0 else (let i = js_findIndex P xs in if i < 0 then -1 else i + 1))"

text \<open>The operator \<open>a ?? b\<close> on values that may be \<open>undefined\<close>.\<close>

definition nullish :: "'a option \<Rightarrow> 'a option \<Rightarrow> 'a option" where
  "nullish a b = (case a of None \<Rightarrow> b | Some x \<Rightarrow> Some x)"


text \<open>
  \<open>obj[key]\<close> on an object whose prototype is \<open>Object.prototype\<close> (an object literal, a
  spread copy, a parsed JSON object): the object's own property of that name; else the
  property that \<open>Object.prototype\<close> has under that name, which is a function, or for
  \<open>__proto__\<close> the prototype itself; else \<open>undefined\<close>. An inherited value is truthy and
  has none of the properties of a span: reading \<open>variants\<close>, \<open>activeVariantIndex\<close> or
  \<open>sourceText\<close> from it gives \<open>undefined\<close>.
\<close>

definition object_prototype_keys :: "jsstring list" where
  "object_prototype_keys =
     map ascii [''constructor'', ''hasOwnProperty'', ''isPrototypeOf'',
       ''propertyIsEnumerable'', ''toLocaleString'', ''toString'', ''valueOf'', ''__proto__'',
       ''__defineGetter__'', ''__defineSetter__'', ''__lookupGetter__'', ''__lookupSetter__'']"

datatype 'v js_prop = Own 'v | Inherited | Absent

definition js_get :: "'v jsrecord \<Rightarrow> jsstring \<Rightarrow> 'v js_prop" where
  "js_get r k =
     (case map_of r k of
        Some v \<Rightarrow> Own v
      | None \<Rightarrow> if k \<in> set object_prototype_keys then Inherited else Absent)"

text \<open>Reading a property of \<open>undefined\<close> throws a \<open>TypeError\<close>. A function that can
  throw returns the error on the left; \<open>then_do\<close> goes on with the value when there is no
  error, as the statements after a call do.\<close>

datatype js_error = TypeError

definition then_do :: "js_error + 'a \<Rightarrow> ('a \<Rightarrow> js_error + 'b) \<Rightarrow> js_error + 'b" where
  "then_do r f = (case r of Inl e \<Rightarrow> Inl e | Inr x \<Rightarrow> f x)"


section \<open>Merging an incoming document (App, makeTranslationCallbacks.onDoc)\<close>

text \<open>
  The body of the loop \<open>for (const [spanId, nextSpan] of Object.entries(incoming.spans))\<close>.
  \<open>prevSpan\<close> is \<open>prev.spans[spanId]\<close>. When it is \<open>undefined\<close> the span is skipped.
  Otherwise the entry of \<open>nextSpans\<close> under \<open>spanId\<close> is overwritten by the incoming span
  with \<open>prevSpan.activeVariantIndex\<close>: the index of the previous span, or \<open>undefined\<close>
  when \<open>prevSpan\<close> is a value inherited from \<open>Object.prototype\<close>.
\<close>

definition merge_step :: "InteractiveDoc \<Rightarrow> jsstring \<times> Span \<Rightarrow> Span jsrecord \<Rightarrow> Span jsrecord" where
  "merge_step prev e nextSpans =
     (case e of (spanId, nextSpan) \<Rightarrow>
        (case js_get (spans prev) spanId of
           Absent \<Rightarrow> nextSpans
         | Own prevSpan \<Rightarrow>
             AList.update spanId
               (nextSpan\<lparr>activeVariantIndex := activeVariantIndex prevSpan\<rparr>) nextSpans
         | Inherited \<Rightarrow>
             AList.update spanId (nextSpan\<lparr>activeVariantIndex := None\<rparr>) nextSpans))"

text \<open>What the loop does to one entry of \<open>incoming.spans\<close>.\<close>

definition carry_over :: "InteractiveDoc \<Rightarrow> jsstring \<times> Span \<Rightarrow> jsstring \<times> Span" where
  "carry_over prev e =
     (case e of (k, s) \<Rightarrow>
        (k, case js_get (spans prev) k of
              Absent \<Rightarrow> s
            | Own ps \<Rightarrow> s\<lparr>activeVariantIndex := activeVariantIndex ps\<rparr>
            | Inherited \<Rightarrow> s\<lparr>activeVariantIndex := None\<rparr>))"

text \<open>The function given to \<open>setDoc\<close>: from the document on display (\<open>None\<close> for
  \<open>null\<close>) to the next one. \<open>nextSpans\<close> starts as a copy of \<open>incoming.spans\<close>. The
  same \<open>nextDoc\<close> is stored in the story's translation.\<close>

definition onDoc :: "InteractiveDoc \<Rightarrow> InteractiveDoc option \<Rightarrow> InteractiveDoc" where
  "onDoc incoming prev =
     (case prev of
        None \<Rightarrow> incoming
      | Some p \<Rightarrow> incoming\<lparr>spans := fold (merge_step p) (spans incoming) (spans incoming)\<rparr>)"

text \<open>The invariant of a span: \<open>0 <= activeVariantIndex < variants.length\<close>.\<close>

definition span_index_ok :: "Span \<Rightarrow> bool" where
  "span_index_ok s \<longleftrightarrow>
     (case activeVariantIndex s of
        None \<Rightarrow> False
      | Some i \<Rightarrow> 0 \<le> i \<and> i < int (length (variants s)))"


section \<open>The content-filter pass (App, the effect on contentFilterEnabled)\<close>

text \<open>The body of the loop over \<open>Object.entries(prev.spans)\<close>; the state is the pair of
  \<open>nextSpans\<close> and \<open>changed\<close>. \<open>active?.register !== 'vulgar'\<close> holds too when there
  is no variant at the active index.\<close>

definition filter_step :: "jsstring \<times> Span \<Rightarrow> Span jsrecord \<times> bool \<Rightarrow> Span jsrecord \<times> bool" where
  "filter_step e st =
     (case e of (spanId, span) \<Rightarrow>
        (case js_index_opt (variants span) (activeVariantIndex span) of
           None \<Rightarrow> st
         | Some active \<Rightarrow>
             if v_register active \<noteq> vulgar then st
             else
               (let nextIndex = js_findIndex (\<lambda>v. v_register v \<noteq> vulgar) (variants span)
                in if nextIndex < 0 then st
                   else (AList.update spanId (span\<lparr>activeVariantIndex := Some nextIndex\<rparr>) (fst st),
                         True))))"

definition filter_loop :: "InteractiveDoc \<Rightarrow> Span jsrecord \<times> bool" where
  "filter_loop prev = fold filter_step (spans prev) (spans prev, False)"

text \<open>The function given to \<open>setDoc\<close>. When \<open>changed\<close> is false it returns \<open>prev\<close>
  itself.\<close>

definition content_filter_pass :: "InteractiveDoc option \<Rightarrow> InteractiveDoc option" where
  "content_filter_pass prev =
     (case prev of
        None \<Rightarrow> None
      | Some p \<Rightarrow>
          (if \<not> snd (filter_loop p) then Some p
           else Some (p\<lparr>spans := fst (filter_loop p)\<rparr>)))"

definition content_filter_effect :: "bool \<Rightarrow> InteractiveDoc option \<Rightarrow> InteractiveDoc option" where
  "content_filter_effect contentFilterEnabled doc =
     (if \<not> contentFilterEnabled then doc else content_filter_pass doc)"

text \<open>What the pass is to do to one span, in the words of the specification: a span whose
  active variant is vulgar and which has a variant that is not gets the index of the
  first such variant, that is the number of vulgar variants before it.\<close>

definition active_is_vulgar :: "Span \<Rightarrow> bool" where
  "active_is_vulgar s =
     (case js_index_opt (variants s) (activeVariantIndex s) of
        None \<Rightarrow> False
      | Some v \<Rightarrow> v_register v = vulgar)"

definition has_non_vulgar :: "Span \<Rightarrow> bool" where
  "has_non_vulgar s = list_ex (\<lambda>v. v_register v \<noteq> vulgar) (variants s)"

definition reselect :: "Span \<Rightarrow> Span" where
  "reselect s =
     (if active_is_vulgar s \<and> has_non_vulgar s
      then s\<lparr>activeVariantIndex :=
             Some (int (length (takeWhile (\<lambda>v. v_register v = vulgar) (variants s))))\<rparr>
      else s)"

text \<open>What the pass does to one entry of \<open>prev.spans\<close>.\<close>

definition reselect_entry :: "jsstring \<times> Span \<Rightarrow> jsstring \<times> Span" where
  "reselect_entry e = (case e of (k, s) \<Rightarrow> (k, reselect s))"


section \<open>Rendering a block in a register (CompilerView.renderBlockForRegister)\<close>

text \<open>
  The body of the loop over the tokens of the block; \<open>out\<close> is the string built so far,
  and a throw ends the loop. \<open>span\<close> is \<open>doc.spans[tok.spanId]\<close>. With an inherited
  value \<open>!span\<close> is false and \<open>span.variants\<close> is \<open>undefined\<close>, so
  \<open>span.variants.length\<close> throws.
\<close>

definition render_token :: "InteractiveDoc \<Rightarrow> RegisterId \<Rightarrow> DocToken \<Rightarrow> js_error + jsstring \<Rightarrow> js_error + jsstring" where
  "render_token d register tok acc =
     then_do acc (\<lambda>out.
       case tok of
         TextTok v \<Rightarrow> Inr (out @ v)
       | SpanTok spanId \<Rightarrow>
           (case js_get (spans d) spanId of
              Absent \<Rightarrow> Inr (out @ ellipsis)
            | Inherited \<Rightarrow> Inl TypeError
            | Own span \<Rightarrow>
                if length (variants span) = 0 then Inr (out @ ellipsis)
                else
                  (let direct = find (\<lambda>v. v_register v = register) (variants span);
                       neutral_v = find (\<lambda>v. v_register v = neutral) (variants span)
                   in Inr (out @ (case nullish (nullish direct neutral_v)
                                         (js_index (variants span) 0) of
                                    None \<Rightarrow> ellipsis
                                  | Some v \<Rightarrow> v_text v)))))"

definition renderBlockForRegister :: "InteractiveDoc option \<Rightarrow> int \<Rightarrow> RegisterId \<Rightarrow> js_error + jsstring" where
  "renderBlockForRegister doc blockIndex register =
     (case doc of
        None \<Rightarrow> Inr []
      | Some d \<Rightarrow>
          (case js_index (docBlocks doc) blockIndex of
             None \<Rightarrow> Inr []
           | Some block \<Rightarrow> fold (render_token d register) block (Inr [])))"

text \<open>The precedence of the specification for one span: the first variant of the
  requested register, else the first neutral variant, else the first variant, else the
  ellipsis.\<close>

definition resolve_by_precedence :: "Variant list \<Rightarrow> RegisterId \<Rightarrow> jsstring" where
  "resolve_by_precedence vs register =
     (case filter (\<lambda>v. v_register v = register) vs of
        v # _ \<Rightarrow> v_text v
      | [] \<Rightarrow>
          (case filter (\<lambda>v. v_register v = neutral) vs of
             v # _ \<Rightarrow> v_text v
           | [] \<Rightarrow> (case vs of v # _ \<Rightarrow> v_text v | [] \<Rightarrow> ellipsis)))"

definition token_text :: "InteractiveDoc \<Rightarrow> RegisterId \<Rightarrow> DocToken \<Rightarrow> jsstring" where
  "token_text d register tok =
     (case tok of
        TextTok v \<Rightarrow> v
      | SpanTok spanId \<Rightarrow>
          (case map_of (spans d) spanId of
             None \<Rightarrow> ellipsis
           | Some span \<Rightarrow> resolve_by_precedence (variants span) register))"

text \<open>A token whose lookup in \<open>doc.spans\<close> finds an inherited property: a span token
  with no span of its own in the document, named like a property of \<open>Object.prototype\<close>.\<close>

definition inherited_ref :: "InteractiveDoc \<Rightarrow> DocToken \<Rightarrow> bool" where
  "inherited_ref d tok =
     (case tok of TextTok _ \<Rightarrow> False | SpanTok spanId \<Rightarrow> js_get (spans d) spanId = Inherited)"


section \<open>Jobs, translations and stories (bokaTypes.ts)\<close>

datatype SegmentStage = stage_pending | stage_ready | stage_error

record TranslationSegment =
  seg_id :: jsstring
  seg_source :: jsstring
  baseText :: "jsstring option"
  baseStage :: SegmentStage
  spanStage :: SegmentStage
  variantCount :: int

record TranslationJob =
  job_id :: jsstring
  segments :: "TranslationSegment list"
  ready :: bool

record StoryTranslation =
  tr_language :: jsstring
  tr_createdAt :: int
  tr_job :: "TranslationJob option"
  tr_doc :: "InteractiveDoc option"
  tr_errorMessage :: "jsstring option"

record Story =
  story_id :: jsstring
  title :: jsstring
  category :: "jsstring option"
  createdAt :: int
  updatedAt :: int
  story_sourceText :: jsstring
  sourceLanguage :: jsstring
  story_translations :: "StoryTranslation jsrecord"


section \<open>Resolving a span by its active variant\<close>

text \<open>\<open>span.activeVariantIndex ?? 0\<close>.\<close>

definition index_or_0 :: "Span \<Rightarrow> int" where
  "index_or_0 s = (case activeVariantIndex s of None \<Rightarrow> 0 | Some i \<Rightarrow> i)"

subsection \<open>The interactive view (CompilerView)\<close>

text \<open>
  \<open>span\<close> is \<open>doc.spans[t.spanId]\<close>, \<open>active\<close> is \<open>span?.activeVariantIndex ?? 0\<close> and the
  label is \<open>span?.variants[active]?.text ?? span?.sourceText ?? '\<dots>'\<close>. With no span each
  optional chain is \<open>undefined\<close> and the label is the ellipsis. With an inherited value
  \<open>span?.variants\<close> is \<open>undefined\<close> and indexing it throws.
\<close>

definition interactive_label :: "InteractiveDoc \<Rightarrow> jsstring \<Rightarrow> js_error + jsstring" where
  "interactive_label d spanId =
     (case js_get (spans d) spanId of
        Absent \<Rightarrow> Inr ellipsis
      | Inherited \<Rightarrow> Inl TypeError
      | Own span \<Rightarrow>
          (let active = index_or_0 span
           in Inr (case nullish (map_option v_text (js_index (variants span) active))
                          (nullish (Some (sourceText span)) (Some ellipsis)) of
                     None \<Rightarrow> ellipsis
                   | Some l \<Rightarrow> l)))"

subsection \<open>The phrases of PracticeView\<close>

record Phrase =
  p_text :: jsstring
  p_sourceText :: jsstring
  p_language :: jsstring

text \<open>What a span token adds to \<open>text\<close> and to \<open>sourceText\<close>. The test
  \<open>!span || span.variants.length === 0\<close> throws on an inherited value.\<close>

definition practice_span_text :: "InteractiveDoc \<Rightarrow> jsstring \<Rightarrow> js_error + jsstring" where
  "practice_span_text d spanId =
     (case js_get (spans d) spanId of
        Absent \<Rightarrow> Inr three_dots
      | Inherited \<Rightarrow> Inl TypeError
      | Own span \<Rightarrow>
          if length (variants span) = 0 then Inr three_dots
          else
            Inr (case nullish (js_index_opt (variants span) (activeVariantIndex span))
                        (js_index (variants span) 0) of
                   None \<Rightarrow> three_dots
                 | Some active \<Rightarrow> v_text active))"

definition practice_span_source :: "InteractiveDoc \<Rightarrow> jsstring \<Rightarrow> jsstring" where
  "practice_span_source d spanId =
     (case js_get (spans d) spanId of
        Own span \<Rightarrow> sourceText span
      | _ \<Rightarrow> three_dots)"

definition practice_token :: "InteractiveDoc \<Rightarrow> DocToken \<Rightarrow> js_error + jsstring \<times> jsstring \<Rightarrow> js_error + jsstring \<times> jsstring" where
  "practice_token d tok acc =
     then_do acc (\<lambda>st.
       case tok of
         TextTok v \<Rightarrow> Inr (fst st @ v, snd st @ v)
       | SpanTok spanId \<Rightarrow>
           then_do (practice_span_text d spanId) (\<lambda>t.
             Inr (fst st @ t, snd st @ practice_span_source d spanId)))"

definition practice_phrase :: "InteractiveDoc \<Rightarrow> jsstring \<Rightarrow> DocToken list \<Rightarrow> js_error + Phrase" where
  "practice_phrase d lang block =
     then_do (fold (practice_token d) block (Inr ([], []))) (\<lambda>st.
       Inr \<lparr>p_text = js_trim (fst st), p_sourceText = js_trim (snd st), p_language = lang\<rparr>)"

text \<open>\<open>blocks.map(...)\<close>, block by block, and then the filter on the phrases.\<close>

definition phrase_step :: "InteractiveDoc \<Rightarrow> jsstring \<Rightarrow> DocToken list \<Rightarrow> js_error + Phrase list \<Rightarrow> js_error + Phrase list" where
  "phrase_step d lang block acc =
     then_do acc (\<lambda>ps. then_do (practice_phrase d lang block) (\<lambda>p. Inr (ps @ [p])))"

definition phrases :: "StoryTranslation option \<Rightarrow> js_error + Phrase list" where
  "phrases activeTranslation =
     (case activeTranslation of
        None \<Rightarrow> Inr []
      | Some tr \<Rightarrow>
          (case tr_doc tr of
             None \<Rightarrow> Inr []
           | Some d \<Rightarrow>
               then_do (fold (phrase_step d (tr_language tr)) (split_blocks (tokens d)) (Inr []))
                 (\<lambda>ps. Inr (filter (\<lambda>p. length (p_text p) > 0) ps))))"

subsection \<open>The masked context of a flashcard (ReviewView.buildMaskedContext)\<close>

text \<open>What a span token other than the target adds to \<open>out\<close>. The test
  \<open>!span || span.variants.length === 0\<close> throws on an inherited value.\<close>

definition masked_other_span :: "bool \<Rightarrow> InteractiveDoc \<Rightarrow> jsstring \<Rightarrow> js_error + jsstring" where
  "masked_other_span contentFilterEnabled d spanId =
     (case js_get (spans d) spanId of
        Absent \<Rightarrow> Inr ellipsis
      | Inherited \<Rightarrow> Inl TypeError
      | Own span \<Rightarrow>
          if length (variants span) = 0 then Inr ellipsis
          else
            (let idx = index_or_0 span;
                 idx' =
                   (if contentFilterEnabled \<and>
                       map_option v_register (js_index (variants span) idx) = Some vulgar
                    then (let next = js_findIndex (\<lambda>v. v_register v \<noteq> vulgar) (variants span)
                          in if next \<ge> 0 then next else idx)
                    else idx)
             in Inr (case nullish (map_option v_text (js_index (variants span) idx'))
                            (Some (sourceText span)) of
                       None \<Rightarrow> ellipsis
                     | Some t \<Rightarrow> t)))"

definition masked_token :: "bool \<Rightarrow> InteractiveDoc \<Rightarrow> jsstring \<Rightarrow> DocToken \<Rightarrow> js_error + jsstring \<Rightarrow> js_error + jsstring" where
  "masked_token contentFilterEnabled d targetSpanId tok acc =
     then_do acc (\<lambda>out.
       case tok of
         TextTok v \<Rightarrow> Inr (out @ v)
       | SpanTok spanId \<Rightarrow>
           if spanId = targetSpanId then Inr (out @ blank_marker)
           else then_do (masked_other_span contentFilterEnabled d spanId) (\<lambda>t. Inr (out @ t)))"

definition is_target :: "jsstring \<Rightarrow> DocToken \<Rightarrow> bool" where
  "is_target targetSpanId t = (case t of TextTok _ \<Rightarrow> False | SpanTok spanId \<Rightarrow> spanId = targetSpanId)"

definition buildMaskedContext :: "bool \<Rightarrow> InteractiveDoc \<Rightarrow> jsstring \<Rightarrow> js_error + jsstring option" where
  "buildMaskedContext contentFilterEnabled d targetSpanId =
     (case find (list_ex (is_target targetSpanId)) (split_blocks (tokens d)) of
        None \<Rightarrow> Inr None
      | Some block \<Rightarrow>
          then_do (fold (masked_token contentFilterEnabled d targetSpanId) block (Inr []))
            (\<lambda>out. Inr (Some out)))"

subsection \<open>The contract of the specification\<close>

text \<open>In the words of the specification: the variant at \<open>activeVariantIndex\<close>, else the
  span's source text, else, with no span, the ellipsis.\<close>

definition variant_or_source :: "Span \<Rightarrow> jsstring" where
  "variant_or_source s =
     (case js_index_opt (variants s) (activeVariantIndex s) of
        Some v \<Rightarrow> v_text v
      | None \<Rightarrow> sourceText s)"

definition active_variant_contract :: "InteractiveDoc \<Rightarrow> jsstring \<Rightarrow> jsstring" where
  "active_variant_contract d spanId =
     (case map_of (spans d) spanId of
        None \<Rightarrow> ellipsis
      | Some s \<Rightarrow> variant_or_source s)"

text \<open>A span read with \<open>activeVariantIndex ?? 0\<close>: an index that is \<open>undefined\<close> counts as
  0; a span whose index is a number is not changed.\<close>

definition with_default_index :: "Span \<Rightarrow> Span" where
  "with_default_index s = s\<lparr>activeVariantIndex := Some (index_or_0 s)\<rparr>"


section \<open>Flashcards (ReviewView.allCards)\<close>

record Flashcard =
  c_id :: jsstring
  c_storyId :: jsstring
  c_storyTitle :: jsstring
  c_language :: jsstring
  c_spanId :: jsstring
  c_sourceText :: jsstring
  c_variantId :: jsstring
  c_register :: RegisterId
  c_text :: jsstring
  c_contextMasked :: "jsstring option"
  c_note :: "jsstring option"

text \<open>The card pushed for a variant: its identity is the template string
  \<open>story.id:tr.language:spanId:v.id\<close>.\<close>

definition make_card :: "Story \<Rightarrow> StoryTranslation \<Rightarrow> jsstring \<Rightarrow> Span \<Rightarrow> Variant \<Rightarrow> jsstring option \<Rightarrow> Flashcard" where
  "make_card story tr spanId span v contextMasked =
     \<lparr>c_id = story_id story @ colon @ tr_language tr @ colon @ spanId @ colon @ v_id v,
      c_storyId = story_id story,
      c_storyTitle = title story,
      c_language = tr_language tr,
      c_spanId = spanId,
      c_sourceText = sourceText span,
      c_variantId = v_id v,
      c_register = v_register v,
      c_text = v_text v,
      c_contextMasked = contextMasked,
      c_note = v_note v\<rparr>"

text \<open>The four nested loops, innermost first; \<open>out\<close> is the array the cards are pushed
  to, and a throw of \<open>buildMaskedContext\<close> ends them all. \<open>!v.text || !v.text.trim()\<close>
  skips a variant whose text is empty or all white space.\<close>

definition variant_step :: "bool \<Rightarrow> Story \<Rightarrow> StoryTranslation \<Rightarrow> InteractiveDoc \<Rightarrow> jsstring \<Rightarrow> Span \<Rightarrow> Variant \<Rightarrow> js_error + Flashcard list \<Rightarrow> js_error + Flashcard list" where
  "variant_step contentFilterEnabled story tr d spanId span v acc =
     then_do acc (\<lambda>out.
       if v_text v = [] \<or> js_trim (v_text v) = [] then Inr out
       else if contentFilterEnabled \<and> v_register v = vulgar then Inr out
       else
         then_do (buildMaskedContext contentFilterEnabled d spanId) (\<lambda>contextMasked.
           Inr (out @ [make_card story tr spanId span v contextMasked])))"

definition span_step :: "bool \<Rightarrow> Story \<Rightarrow> StoryTranslation \<Rightarrow> InteractiveDoc \<Rightarrow> jsstring \<times> Span \<Rightarrow> js_error + Flashcard list \<Rightarrow> js_error + Flashcard list" where
  "span_step contentFilterEnabled story tr d e acc =
     (case e of (spanId, span) \<Rightarrow>
        fold (variant_step contentFilterEnabled story tr d spanId span) (variants span) acc)"

definition translation_step :: "bool \<Rightarrow> Story \<Rightarrow> StoryTranslation \<Rightarrow> js_error + Flashcard list \<Rightarrow> js_error + Flashcard list" where
  "translation_step contentFilterEnabled story tr acc =
     (case tr_doc tr of
        None \<Rightarrow> acc
      | Some d \<Rightarrow> fold (span_step contentFilterEnabled story tr d) (spans d) acc)"

definition story_step :: "bool \<Rightarrow> Story \<Rightarrow> js_error + Flashcard list \<Rightarrow> js_error + Flashcard list" where
  "story_step contentFilterEnabled story acc =
     fold (translation_step contentFilterEnabled story) (map snd (story_translations story)) acc"

definition emit_cards :: "bool \<Rightarrow> Story list \<Rightarrow> js_error + Flashcard list" where
  "emit_cards contentFilterEnabled stories =
     fold (story_step contentFilterEnabled) stories (Inr [])"

text \<open>The comparison function given to \<open>out.sort\<close>. \<open>String.prototype.localeCompare\<close>
  belongs to the platform and depends on its locale: it is a parameter here, with a
  negative, zero or positive result.\<close>

definition card_compare :: "(jsstring \<Rightarrow> jsstring \<Rightarrow> int) \<Rightarrow> Flashcard \<Rightarrow> Flashcard \<Rightarrow> int" where
  "card_compare localeCompare a b =
     (if c_storyTitle a \<noteq> c_storyTitle b then localeCompare (c_storyTitle a) (c_storyTitle b)
      else if c_language a \<noteq> c_language b then localeCompare (c_language a) (c_language b)
      else localeCompare (c_sourceText a) (c_sourceText b))"

text \<open>\<open>Array.prototype.sort\<close> is stable: elements that compare equal keep their order.
  With a consistent comparison function its result is the one of a stable insertion
  sort.\<close>

fun insert_by :: "('a \<Rightarrow> 'a \<Rightarrow> int) \<Rightarrow> 'a \<Rightarrow> 'a list \<Rightarrow> 'a list" where
  "insert_by cmp x [] = [x]"
| "insert_by cmp x (y # ys) = (if cmp x y \<le> 0 then x # y # ys else y # insert_by cmp x ys)"

definition js_sort :: "('a \<Rightarrow> 'a \<Rightarrow> int) \<Rightarrow> 'a list \<Rightarrow> 'a list" where
  "js_sort cmp xs = foldr (insert_by cmp) xs []"

definition allCards :: "(jsstring \<Rightarrow> jsstring \<Rightarrow> int) \<Rightarrow> bool \<Rightarrow> Story list \<Rightarrow> js_error + Flashcard list" where
  "allCards localeCompare contentFilterEnabled stories =
     then_do (emit_cards contentFilterEnabled stories) (\<lambda>out.
       Inr (js_sort (card_compare localeCompare) out))"

text \<open>When a variant gives a card, in the words of the specification, and the cards of a
  span, a translation and a story. \<open>context_of\<close> is the masked context when
  \<open>buildMaskedContext\<close> returns.\<close>

definition gives_card :: "bool \<Rightarrow> Variant \<Rightarrow> bool" where
  "gives_card contentFilterEnabled v \<longleftrightarrow>
     js_trim (v_text v) \<noteq> [] \<and> \<not> (contentFilterEnabled \<and> v_register v = vulgar)"

definition context_of :: "bool \<Rightarrow> InteractiveDoc \<Rightarrow> jsstring \<Rightarrow> jsstring option" where
  "context_of cf d spanId =
     (case buildMaskedContext cf d spanId of Inl _ \<Rightarrow> None | Inr c \<Rightarrow> c)"

definition cards_of_span :: "bool \<Rightarrow> Story \<Rightarrow> StoryTranslation \<Rightarrow> InteractiveDoc \<Rightarrow> jsstring \<times> Span \<Rightarrow> Flashcard list" where
  "cards_of_span cf story tr d e =
     map (\<lambda>v. make_card story tr (fst e) (snd e) v (context_of cf d (fst e)))
       (filter (gives_card cf) (variants (snd e)))"

definition cards_of_translation :: "bool \<Rightarrow> Story \<Rightarrow> StoryTranslation \<Rightarrow> Flashcard list" where
  "cards_of_translation cf story tr =
     (case tr_doc tr of
        None \<Rightarrow> []
      | Some d \<Rightarrow> concat (map (cards_of_span cf story tr d) (spans d)))"

definition cards_of_story :: "bool \<Rightarrow> Story \<Rightarrow> Flashcard list" where
  "cards_of_story cf story =
     concat (map (cards_of_translation cf story) (map snd (story_translations story)))"

text \<open>A document none of whose span tokens finds an inherited property, and stories with
  such documents only.\<close>

definition doc_closed :: "InteractiveDoc \<Rightarrow> bool" where
  "doc_closed d = list_all (\<lambda>tok. \<not> inherited_ref d tok) (tokens d)"

definition story_closed :: "Story \<Rightarrow> bool" where
  "story_closed story =
     list_all (\<lambda>tr. case tr_doc tr of None \<Rightarrow> True | Some d \<Rightarrow> doc_closed d)
       (map snd (story_translations story))"

text \<open>The identity of a card is made of its story, language, span and variant.\<close>

definition id_composite :: "Flashcard \<Rightarrow> bool" where
  "id_composite c \<longleftrightarrow>
     c_id c = c_storyId c @ colon @ c_language c @ colon @ c_spanId c @ colon @ c_variantId c"

text \<open>The three sort keys of a card, and the lexicographic order on them that a
  comparison of strings gives: by title, then, for titles that compare equal, by
  language, then by source text.\<close>

definition card_key :: "Flashcard \<Rightarrow> jsstring \<times> jsstring \<times> jsstring" where
  "card_key c = (c_storyTitle c, c_language c, c_sourceText c)"

definition lex_le :: "(jsstring \<Rightarrow> jsstring \<Rightarrow> int) \<Rightarrow> jsstring \<times> jsstring \<times> jsstring \<Rightarrow> jsstring \<times> jsstring \<times> jsstring \<Rightarrow> bool" where
  "lex_le lc k1 k2 =
     (case k1 of (t1, l1, s1) \<Rightarrow> case k2 of (t2, l2, s2) \<Rightarrow>
        lc t1 t2 < 0 \<or> (lc t1 t2 = 0 \<and> (lc l1 l2 < 0 \<or> (lc l1 l2 = 0 \<and> lc s1 s2 \<le> 0))))"

text \<open>
  A comparison of strings on which the theorems are run. The platform's comparison gives
  zero on strings that are canonically equivalent in Unicode, as \<open>U+00E9\<close> and the letter
  \<open>e\<close> followed by \<open>U+0301\<close> are. This one puts the two code units together and then
  compares by code units.
\<close>

fun code_unit_compare :: "jsstring \<Rightarrow> jsstring \<Rightarrow> int" where
  "code_unit_compare [] [] = 0"
| "code_unit_compare [] (y # ys) = -1"
| "code_unit_compare (x # xs) [] = 1"
| "code_unit_compare (x # xs) (y # ys) =
     (if x < y then -1 else if y < x then 1 else code_unit_compare xs ys)"

fun compose_e_acute :: "jsstring \<Rightarrow> jsstring" where
  "compose_e_acute [] = []"
| "compose_e_acute [c] = [c]"
| "compose_e_acute (c # c' # cs) =
     (if c = 101 \<and> c' = 769 then 233 # compose_e_acute cs
      else c # compose_e_acute (c' # cs))"

definition ex_locale_compare :: "jsstring \<Rightarrow> jsstring \<Rightarrow> int" where
  "ex_locale_compare a b = code_unit_compare (compose_e_acute a) (compose_e_acute b)"


section \<open>The mock translator (mockTranslation.ts)\<close>

subsection \<open>Segments of the story text\<close>

text \<open>\<open>t.split(/(?<=[.!?])\s+/)\<close>: the text is cut at every run of white space that
  follows a full stop, an exclamation mark or a question mark; the run is dropped.\<close>

definition is_sentence_end :: "nat \<Rightarrow> bool" where
  "is_sentence_end c \<longleftrightarrow> c = 46 \<or> c = 33 \<or> c = 63"

function split_sentences :: "jsstring \<Rightarrow> jsstring \<Rightarrow> jsstring list" where
  "split_sentences [] cur = [cur]"
| "split_sentences (c # cs) cur =
     (if is_sentence_end c \<and> (case cs of [] \<Rightarrow> False | c' # _ \<Rightarrow> is_js_space c')
      then (cur @ [c]) # split_sentences (dropWhile is_js_space cs) []
      else split_sentences cs (cur @ [c]))"
  by pat_completeness auto
termination
  by (relation "measure (\<lambda>(s, cur). length s)") (auto simp: length_dropWhile_le less_Suc_eq_le)

definition split_into_segments :: "jsstring \<Rightarrow> jsstring list" where
  "split_into_segments text =
     (let t = js_trim text
      in if t = [] then []
         else (let rough = filter (\<lambda>s. s \<noteq> []) (map js_trim (split_sentences t []))
               in if length rough > 0 then rough else [t]))"

text \<open>A number in a template string: its decimal digits.\<close>

fun decimal :: "nat \<Rightarrow> jsstring" where
  "decimal n = (if n < 10 then [48 + n] else decimal (n div 10) @ [48 + n mod 10])"

declare decimal.simps [simp del]

definition initial_segment :: "nat \<times> jsstring \<Rightarrow> TranslationSegment" where
  "initial_segment e =
     (case e of (i, s) \<Rightarrow>
        \<lparr>seg_id = ascii ''seg-'' @ decimal (i + 1), seg_source = s, baseText = None,
         baseStage = stage_pending, spanStage = stage_pending, variantCount = 0\<rparr>)"

subsection \<open>The state of one request\<close>

text \<open>
  What the caller sees of a request is the sequence of calls of its two callbacks. The
  log keeps them in order, and also marks a call of \<open>cancel\<close>. The timers of the window
  that the request has set and that have neither fired nor been cleared are kept by
  delay: all of them are set at the start, and the event loop fires the earliest first.
\<close>

datatype MockEvent = OnJob TranslationJob | OnDoc "InteractiveDoc option" | CancelCall

datatype Timer = BaseTimer nat | FinalTimer

record Mock =
  m_job :: TranslationJob
  m_cancelled :: bool
  m_timers :: "(nat \<times> Timer) list"
  m_log :: "MockEvent list"

text \<open>
  The caller, as far as it acts on the request: \<open>calls_cancel\<close> says whether its
  callback calls \<open>cancel\<close> of the handle when it is given this event. The document
  that the last timer builds from the segments of the job (\<open>inject_single_span\<close>,
  \<open>make_variants\<close>) is left open as \<open>build_doc\<close>: nothing below depends on its content.
\<close>

record Caller =
  calls_cancel :: "MockEvent \<Rightarrow> bool"
  build_doc :: "TranslationJob \<Rightarrow> InteractiveDoc"

fun enqueue_timer :: "nat \<times> Timer \<Rightarrow> (nat \<times> Timer) list \<Rightarrow> (nat \<times> Timer) list" where
  "enqueue_timer t [] = [t]"
| "enqueue_timer t (u # us) = (if fst t < fst u then t # u # us else u # enqueue_timer t us)"

definition set_timeout :: "Timer \<Rightarrow> nat \<Rightarrow> Mock \<Rightarrow> Mock" where
  "set_timeout t delay st = st\<lparr>m_timers := enqueue_timer (delay, t) (m_timers st)\<rparr>"

text \<open>\<open>cancel\<close>: the flag is set and every timer is cleared.\<close>

definition cancel :: "Mock \<Rightarrow> Mock" where
  "cancel st = st\<lparr>m_cancelled := True, m_timers := [], m_log := m_log st @ [CancelCall]\<rparr>"

definition call_back :: "Caller \<Rightarrow> MockEvent \<Rightarrow> Mock \<Rightarrow> Mock" where
  "call_back caller ev st =
     (let st' = st\<lparr>m_log := m_log st @ [ev]\<rparr>
      in if calls_cancel caller ev then cancel st' else st')"

text \<open>\<open>update_job\<close>: nothing when cancelled; otherwise the job is copied, changed by
  \<open>mut\<close>, stored and given to \<open>onJob\<close>.\<close>

definition update_job :: "Caller \<Rightarrow> (TranslationJob \<Rightarrow> TranslationJob) \<Rightarrow> Mock \<Rightarrow> Mock" where
  "update_job caller mut st =
     (if m_cancelled st then st
      else (let next = mut (m_job st)
            in call_back caller (OnJob next) (st\<lparr>m_job := next\<rparr>)))"

definition base_mut :: "nat \<Rightarrow> TranslationJob \<Rightarrow> TranslationJob" where
  "base_mut i j =
     (case js_index (segments j) (int i) of
        None \<Rightarrow> j
      | Some seg \<Rightarrow>
          j\<lparr>segments := (segments j)
               [i := seg\<lparr>baseStage := stage_ready,
                        baseText := Some ([171] @ seg_source seg @ [187])\<rparr>]\<rparr>)"

definition final_mut :: "TranslationJob \<Rightarrow> TranslationJob" where
  "final_mut j =
     j\<lparr>segments := map (\<lambda>seg. seg\<lparr>spanStage := stage_ready, variantCount := 6\<rparr>) (segments j),
       ready := True\<rparr>"

text \<open>The two kinds of timer callbacks. The last one calls \<open>update_job\<close> and then
  \<open>onDoc\<close> with the document built from the current job.\<close>

definition run_timer :: "Caller \<Rightarrow> Timer \<Rightarrow> Mock \<Rightarrow> Mock" where
  "run_timer caller t st =
     (case t of
        BaseTimer i \<Rightarrow> update_job caller (base_mut i) st
      | FinalTimer \<Rightarrow>
          (let st1 = update_job caller final_mut st
           in call_back caller (OnDoc (Some (build_doc caller (m_job st1)))) st1))"

definition start_mock_translation :: "Caller \<Rightarrow> nat \<Rightarrow> jsstring \<Rightarrow> Mock" where
  "start_mock_translation caller now storyText =
     (let segs = map initial_segment (enumerate 0 (split_into_segments storyText));
          job = \<lparr>job_id = ascii ''job-'' @ decimal now, segments = segs, ready = False\<rparr>;
          st0 = \<lparr>m_job = job, m_cancelled = False, m_timers = [],
                 m_log = [OnDoc None, OnJob job]\<rparr>;
          st1 = fold (\<lambda>i. set_timeout (BaseTimer i) (500 + i * 650)) [0..<length segs] st0
      in set_timeout FinalTimer (500 + length segs * 650 + 600) st1)"

text \<open>What happens to a request after its start: the event loop fires the earliest
  pending timer, or the caller calls \<open>cancel\<close>.\<close>

datatype Action = Tick | Cancel

definition tick :: "Caller \<Rightarrow> Mock \<Rightarrow> Mock" where
  "tick caller st =
     (case m_timers st of
        [] \<Rightarrow> st
      | (delay, t) # rest \<Rightarrow> run_timer caller t (st\<lparr>m_timers := rest\<rparr>))"

definition act :: "Caller \<Rightarrow> Action \<Rightarrow> Mock \<Rightarrow> Mock" where
  "act caller a st = (case a of Tick \<Rightarrow> tick caller st | Cancel \<Rightarrow> cancel st)"

definition run :: "Caller \<Rightarrow> Action list \<Rightarrow> Mock \<Rightarrow> Mock" where
  "run caller acts st = fold (act caller) acts st"

fun emitted_jobs :: "MockEvent list \<Rightarrow> TranslationJob list" where
  "emitted_jobs [] = []"
| "emitted_jobs (OnJob j # es) = j # emitted_jobs es"
| "emitted_jobs (e # es) = emitted_jobs es"

text \<open>The aggregate of the specification: both stages of every segment are ready.\<close>

definition all_segments_ready :: "TranslationJob \<Rightarrow> bool" where
  "all_segments_ready j =
     list_all (\<lambda>s. baseStage s = stage_ready \<and> spanStage s = stage_ready) (segments j)"

definition ready_is_and :: "TranslationJob \<Rightarrow> bool" where
  "ready_is_and j \<longleftrightarrow> (ready j \<longleftrightarrow> all_segments_ready j)"

text \<open>What holds of every job given to \<open>onJob\<close> by a request with \<open>n\<close> segments, and
  the invariant of the request: either no timer is pending, or the request is not
  cancelled, the timers of the segments from \<open>k\<close> on and the last timer are pending, the
  job is not ready, no span stage is ready and the base stages before \<open>k\<close> are.\<close>

definition job_ok :: "nat \<Rightarrow> TranslationJob \<Rightarrow> bool" where
  "job_ok n j \<longleftrightarrow> (if n = 0 then ready j \<longrightarrow> all_segments_ready j else ready_is_and j)"

definition phase_waiting :: "nat \<Rightarrow> nat \<Rightarrow> Mock \<Rightarrow> bool" where
  "phase_waiting n k st \<longleftrightarrow>
     k \<le> n \<and>
     map snd (m_timers st) = map BaseTimer [k..<n] @ [FinalTimer] \<and>
     \<not> ready (m_job st) \<and>
     list_all (\<lambda>s. spanStage s = stage_pending) (segments (m_job st)) \<and>
     list_all (\<lambda>s. baseStage s = stage_ready) (take k (segments (m_job st)))"

definition mock_inv :: "nat \<Rightarrow> Mock \<Rightarrow> bool" where
  "mock_inv n st \<longleftrightarrow>
     list_all (job_ok n) (emitted_jobs (m_log st)) \<and>
     length (segments (m_job st)) = n \<and>
     (m_timers st = [] \<or> (\<not> m_cancelled st \<and> (\<exists>k. phase_waiting n k st)))"

text \<open>The calls of the callbacks in a log.\<close>

definition callbacks :: "MockEvent list \<Rightarrow> MockEvent list" where
  "callbacks es = filter (\<lambda>e. e \<noteq> CancelCall) es"


section \<open>Example documents\<close>

text \<open>Small documents on which the theorems below are run.\<close>

definition ex_variant :: "string \<Rightarrow> RegisterId \<Rightarrow> string \<Rightarrow> Variant" where
  "ex_variant i r t =
     \<lparr>v_id = ascii i, v_register = r, v_text = ascii t, v_note = None, v_difficulty = None\<rparr>"

definition ex_span :: "string \<Rightarrow> string \<Rightarrow> Variant list \<Rightarrow> int \<Rightarrow> Span" where
  "ex_span i src vs a =
     \<lparr>span_id = ascii i, sourceText = ascii src, variants = vs, activeVariantIndex = Some a\<rparr>"

definition ex_three :: "Variant list" where
  "ex_three = [ex_variant ''n'' neutral ''a'', ex_variant ''f'' formal ''B'',
               ex_variant ''c'' casual ''c'']"

definition ex_prev :: InteractiveDoc where
  "ex_prev =
     \<lparr>tokens = [SpanTok (ascii ''s0''), SpanTok (ascii ''s1'')],
      spans = [(ascii ''s0'', ex_span ''s0'' ''zero'' ex_three 1),
               (ascii ''s1'', ex_span ''s1'' ''one'' ex_three 2)]\<rparr>"

definition ex_incoming :: InteractiveDoc where
  "ex_incoming =
     \<lparr>tokens = [SpanTok (ascii ''s1''), TextTok block_separator, SpanTok (ascii ''s2'')],
      spans = [(ascii ''s1'', ex_span ''s1'' ''one'' ex_three 0),
               (ascii ''s2'', ex_span ''s2'' ''two'' ex_three 0)]\<rparr>"

definition ex_incoming_short :: InteractiveDoc where
  "ex_incoming_short =
     \<lparr>tokens = [SpanTok (ascii ''s1'')],
      spans = [(ascii ''s1'', ex_span ''s1'' ''one'' [ex_variant ''n'' neutral ''a''] 0)]\<rparr>"

text \<open>An incoming document with a span under the key \<open>constructor\<close>.\<close>

definition ex_incoming_inherited :: InteractiveDoc where
  "ex_incoming_inherited =
     \<lparr>tokens = [SpanTok (ascii ''s1''), SpanTok (ascii ''constructor'')],
      spans = [(ascii ''s1'', ex_span ''s1'' ''one'' ex_three 0),
               (ascii ''constructor'', ex_span ''constructor'' ''new'' ex_three 1)]\<rparr>"

definition ex_vulgar_doc :: InteractiveDoc where
  "ex_vulgar_doc =
     \<lparr>tokens = [SpanTok (ascii ''sa''), SpanTok (ascii ''sb'')],
      spans = [(ascii ''sa'', ex_span ''sa'' ''a'' [ex_variant ''v'' vulgar ''x'', ex_variant ''n'' neutral ''ok''] 0),
               (ascii ''sb'', ex_span ''sb'' ''b'' [ex_variant ''v'' vulgar ''x''] 0)]\<rparr>"

definition ex_caller :: Caller where
  "ex_caller = \<lparr>calls_cancel = (\<lambda>ev. False), build_doc = (\<lambda>j. \<lparr>tokens = [], spans = []\<rparr>)\<rparr>"

text \<open>A caller that cancels the request as soon as a job reports ready.\<close>

definition ex_cancel_on_ready :: Caller where
  "ex_cancel_on_ready =
     \<lparr>calls_cancel = (\<lambda>ev. case ev of OnJob j \<Rightarrow> ready j | _ \<Rightarrow> False),
      build_doc = (\<lambda>j. \<lparr>tokens = [], spans = []\<rparr>)\<rparr>"


definition ex_render_doc :: InteractiveDoc where
  "ex_render_doc =
     \<lparr>tokens = [TextTok (ascii ''x ''), SpanTok (ascii ''s1''), TextTok block_separator,
                SpanTok (ascii ''s2''), TextTok (ascii ''!'')],
      spans = [(ascii ''s1'', ex_span ''s1'' ''one''
                  [ex_variant ''n'' neutral ''a'', ex_variant ''f'' formal ''B''] 0),
               (ascii ''s2'', ex_span ''s2'' ''two'' [] 0)]\<rparr>"

text \<open>A document with a span token \<open>constructor\<close> and no span of that name.\<close>

definition ex_dangling_doc :: InteractiveDoc where
  "ex_dangling_doc =
     \<lparr>tokens = [TextTok (ascii ''see ''), SpanTok (ascii ''sx''), TextTok (ascii '' and ''),
                SpanTok (ascii ''constructor'')],
      spans = [(ascii ''sx'', ex_span ''sx'' ''src''
                  [ex_variant ''v1'' neutral ''ok'', ex_variant ''v2'' vulgar ''x''] 0)]\<rparr>"

definition ex_stale_doc :: InteractiveDoc where
  "ex_stale_doc =
     \<lparr>tokens = [SpanTok (ascii ''s1''), SpanTok (ascii ''s9'')],
      spans = [(ascii ''s1'', ex_span ''s1'' ''one'' [ex_variant ''n'' neutral ''a''] 5)]\<rparr>"


definition ex_card_doc :: InteractiveDoc where
  "ex_card_doc =
     \<lparr>tokens = [TextTok (ascii ''see ''), SpanTok (ascii ''sx'')],
      spans = [(ascii ''sx'', ex_span ''sx'' ''src''
                  [ex_variant ''v1'' neutral ''ok'', ex_variant ''v2'' vulgar ''x''] 0)]\<rparr>"

definition ex_translation :: "string \<Rightarrow> InteractiveDoc \<Rightarrow> StoryTranslation" where
  "ex_translation lang d =
     \<lparr>tr_language = ascii lang, tr_createdAt = 0, tr_job = None, tr_doc = Some d,
      tr_errorMessage = None\<rparr>"

text \<open>A story with one translation that has a document.\<close>

definition ex_story :: "string \<Rightarrow> jsstring \<Rightarrow> string \<Rightarrow> InteractiveDoc \<Rightarrow> Story" where
  "ex_story i t lang d =
     \<lparr>story_id = ascii i, title = t, category = None, createdAt = 0, updatedAt = 0,
      story_sourceText = ascii ''see src'', sourceLanguage = ascii ''en'',
      story_translations = [(ascii lang, ex_translation lang d)]\<rparr>"

definition ex_sx :: Span where
  "ex_sx = ex_span ''sx'' ''src'' [ex_variant ''v1'' neutral ''ok'', ex_variant ''v2'' vulgar ''x''] 0"

text \<open>Two stories whose titles are \<open>U+00E9\<close> and \<open>e\<close> with \<open>U+0301\<close>, the first
  translated to French and the second to German.\<close>

definition ex_accent_stories :: "Story list" where
  "ex_accent_stories =
     [ex_story ''st1'' [233] ''fr'' ex_card_doc, ex_story ''st2'' [101, 769] ''de'' ex_card_doc]"


section \<open>Properties of block segmentation\<close>

lemma rejoin_snoc:
  "rejoin (bs @ [c]) = (if bs = [] then c else rejoin bs @ TextTok block_separator # c)"
  by (induction bs rule: rejoin.induct) auto

lemma blocks_loop_length:
  "length (blocks_loop toks blocks cur) = length blocks + length (filter is_separator toks) + 1"
  by (induction toks arbitrary: blocks cur) auto

lemma blocks_loop_rejoin:
  "rejoin (blocks_loop toks blocks cur) = rejoin (blocks @ [cur]) @ toks"
  by (induction toks arbitrary: blocks cur) (auto simp: rejoin_snoc is_separator_def split: DocToken.splits)

lemma blocks_loop_no_separator:
  "list_all (list_all (\<lambda>t. \<not> is_separator t)) blocks \<Longrightarrow>
   list_all (\<lambda>t. \<not> is_separator t) cur \<Longrightarrow>
   list_all (list_all (\<lambda>t. \<not> is_separator t)) (blocks_loop toks blocks cur)"
  by (induction toks arbitrary: blocks cur) simp_all

lemma blocks_loop_single:
  "\<forall>t \<in> set toks. \<not> is_separator t \<Longrightarrow> blocks_loop toks blocks cur = blocks @ [cur @ toks]"
  by (induction toks arbitrary: blocks cur) auto

text \<open>
  C4. A token sequence with N separator tokens is cut into N + 1 blocks; no block holds
  a separator; the blocks joined with a separator between neighbours are the token
  sequence again; a sequence with no separator is one block. The segmentation is a
  function of the token sequence, hence deterministic.
\<close>

theorem split_blocks_roundtrip:
  "length (split_blocks toks) = length (filter is_separator toks) + 1
   \<and> (\<forall>b \<in> set (split_blocks toks). \<forall>t \<in> set b. \<not> is_separator t)
   \<and> rejoin (split_blocks toks) = toks
   \<and> ((\<forall>t \<in> set toks. \<not> is_separator t) \<longrightarrow> split_blocks toks = [toks])"
proof (intro conjI)
  show "length (split_blocks toks) = length (filter is_separator toks) + 1"
    by (simp add: split_blocks_def blocks_loop_length)
  show "\<forall>b \<in> set (split_blocks toks). \<forall>t \<in> set b. \<not> is_separator t"
    using blocks_loop_no_separator [of "[]" "[]" toks]
    by (simp add: split_blocks_def list_all_iff)
  show "rejoin (split_blocks toks) = toks"
    by (simp add: split_blocks_def blocks_loop_rejoin)
  show "(\<forall>t \<in> set toks. \<not> is_separator t) \<longrightarrow> split_blocks toks = [toks]"
    by (simp add: split_blocks_def blocks_loop_single)
qed

theorem split_blocks_roundtrip_witness:
  "split_blocks (tokens ex_incoming) = [[SpanTok (ascii ''s1'')], [SpanTok (ascii ''s2'')]]
   \<and> length (split_blocks (tokens ex_incoming)) = 2
   \<and> rejoin (split_blocks (tokens ex_incoming)) = tokens ex_incoming
   \<and> split_blocks (tokens ex_prev) = [tokens ex_prev]"
  using split_blocks_roundtrip [of "tokens ex_incoming"] split_blocks_roundtrip [of "tokens ex_prev"]
  by (simp add: ex_incoming_def ex_prev_def split_blocks_def is_separator_def)


section \<open>Properties of the merge\<close>

lemma fst_carry_over: "fst (carry_over p e) = fst e"
  by (cases e) (simp add: carry_over_def)

lemma update_middle:
  "k \<notin> fst ` set as \<Longrightarrow> AList.update k v (as @ (k, v0) # bs) = as @ (k, v) # bs"
  by (induction as) auto

lemma merge_fold_general:
  "distinct (map fst (ys @ xs)) \<Longrightarrow>
   fold (merge_step p) xs (map (carry_over p) ys @ xs) = map (carry_over p) (ys @ xs)"
proof (induction xs arbitrary: ys)
  case Nil
  then show ?case by simp
next
  case (Cons e xs)
  obtain k s where e: "e = (k, s)" by (cases e)
  have "fst ` set (map (carry_over p) ys) = fst ` set ys"
    by (simp add: image_image fst_carry_over)
  with Cons.prems e have notin: "k \<notin> fst ` set (map (carry_over p) ys)"
    by auto
  have step: "merge_step p e (map (carry_over p) ys @ e # xs)
        = map (carry_over p) (ys @ [e]) @ xs"
    using update_middle [OF notin]
    by (auto simp: merge_step_def carry_over_def e split: js_prop.splits)
  from Cons.prems have "distinct (map fst ((ys @ [e]) @ xs))" by simp
  from Cons.IH [OF this] step show ?case by simp
qed

lemma onDoc_spans:
  "wf_record (spans incoming) \<Longrightarrow>
   spans (onDoc incoming (Some prev)) = map (carry_over prev) (spans incoming)"
  using merge_fold_general [of "[]" "spans incoming" prev]
  by (simp add: onDoc_def wf_record_def)

lemma map_of_carry_over:
  "map_of (map (carry_over p) xs) k =
     (case map_of xs k of
        None \<Rightarrow> None
      | Some s \<Rightarrow> Some (case js_get (spans p) k of
                          Absent \<Rightarrow> s
                        | Own ps \<Rightarrow> s\<lparr>activeVariantIndex := activeVariantIndex ps\<rparr>
                        | Inherited \<Rightarrow> s\<lparr>activeVariantIndex := None\<rparr>))"
  by (induction xs) (auto simp: carry_over_def split: option.splits js_prop.splits)

lemma js_get_own: "map_of r k = Some v \<Longrightarrow> js_get r k = Own v"
  by (simp add: js_get_def)

text \<open>What the merge gives, for every key: the tokens and the keys of the incoming
  document; under a key of the incoming document the incoming span, with the previous
  span's index when the previous document has the key as its own, and with no index when
  the lookup in the previous document finds an inherited property.\<close>

lemma onDoc_merge:
  assumes "wf_record (spans incoming)"
  shows "tokens (onDoc incoming (Some prev)) = tokens incoming"
    and "map fst (spans (onDoc incoming (Some prev))) = map fst (spans incoming)"
    and "map_of (spans (onDoc incoming (Some prev))) k =
           (case map_of (spans incoming) k of
              None \<Rightarrow> None
            | Some s \<Rightarrow> Some (case js_get (spans prev) k of
                                Absent \<Rightarrow> s
                              | Own ps \<Rightarrow> s\<lparr>activeVariantIndex := activeVariantIndex ps\<rparr>
                              | Inherited \<Rightarrow> s\<lparr>activeVariantIndex := None\<rparr>))"
proof -
  show "tokens (onDoc incoming (Some prev)) = tokens incoming"
    by (simp add: onDoc_def)
  show "map fst (spans (onDoc incoming (Some prev))) = map fst (spans incoming)"
    by (simp add: onDoc_spans [OF assms] fst_carry_over)
  show "map_of (spans (onDoc incoming (Some prev))) k =
           (case map_of (spans incoming) k of
              None \<Rightarrow> None
            | Some s \<Rightarrow> Some (case js_get (spans prev) k of
                                Absent \<Rightarrow> s
                              | Own ps \<Rightarrow> s\<lparr>activeVariantIndex := activeVariantIndex ps\<rparr>
                              | Inherited \<Rightarrow> s\<lparr>activeVariantIndex := None\<rparr>))"
    by (simp add: onDoc_spans [OF assms] map_of_carry_over)
qed

lemma ex_merge_own_keys:
  "map_of (spans (onDoc ex_incoming (Some ex_prev))) (ascii ''s1'')
        = Some (ex_span ''s1'' ''one'' ex_three 2)"
  "map_of (spans (onDoc ex_incoming (Some ex_prev))) (ascii ''s2'')
        = Some (ex_span ''s2'' ''two'' ex_three 0)"
  "map_of (spans (onDoc ex_incoming (Some ex_prev))) (ascii ''s0'') = None"
proof -
  have wf: "wf_record (spans ex_incoming)"
    by (simp add: ex_incoming_def wf_record_def ascii_def)
  show "map_of (spans (onDoc ex_incoming (Some ex_prev))) (ascii ''s1'')
        = Some (ex_span ''s1'' ''one'' ex_three 2)"
    "map_of (spans (onDoc ex_incoming (Some ex_prev))) (ascii ''s2'')
        = Some (ex_span ''s2'' ''two'' ex_three 0)"
    "map_of (spans (onDoc ex_incoming (Some ex_prev))) (ascii ''s0'') = None"
    unfolding onDoc_merge(3) [OF wf]
    by (simp_all add: ex_incoming_def ex_prev_def ex_span_def js_get_def
          object_prototype_keys_def ascii_def)
qed

text \<open>
  C1 on the code. The previous document has the spans \<open>s0\<close> and \<open>s1\<close>. The incoming
  document has \<open>s1\<close> and a span new to it under the key \<open>constructor\<close>, with index 1.
  \<open>prev.spans['constructor']\<close> is the function that every object inherits, so the span is
  not skipped, and the merged span has \<open>prevSpan.activeVariantIndex\<close>, which is
  \<open>undefined\<close>, in place of its own index.
\<close>

theorem onDoc_inherited_key:
  "map_of (spans ex_prev) (ascii ''constructor'') = None
   \<and> map_of (spans ex_incoming_inherited) (ascii ''constructor'')
       = Some (ex_span ''constructor'' ''new'' ex_three 1)
   \<and> map_of (spans (onDoc ex_incoming_inherited (Some ex_prev))) (ascii ''constructor'')
       = Some ((ex_span ''constructor'' ''new'' ex_three 1)\<lparr>activeVariantIndex := None\<rparr>)"
proof -
  have wf: "wf_record (spans ex_incoming_inherited)"
    by (simp add: ex_incoming_inherited_def wf_record_def ascii_def)
  show ?thesis
    unfolding onDoc_merge(3) [OF wf]
    by (simp add: ex_incoming_inherited_def ex_prev_def js_get_def object_prototype_keys_def
          ascii_def)
qed

text \<open>
  C10. The merge copies the previous index without looking at the incoming span's
  variants: when the previous index, a number \<open>i\<close>, is at least the number of the
  incoming span's variants, the merged span has that index over the incoming variants,
  and breaks the invariant \<open>0 <= activeVariantIndex < variants.length\<close>.
\<close>

theorem onDoc_keeps_stale_index:
  assumes "wf_record (spans incoming)"
    and "map_of (spans incoming) k = Some s"
    and "map_of (spans prev) k = Some ps"
    and "activeVariantIndex ps = Some i"
    and "int (length (variants s)) \<le> i"
  shows "\<exists>s'. map_of (spans (onDoc incoming (Some prev))) k = Some s'
           \<and> activeVariantIndex s' = activeVariantIndex ps
           \<and> variants s' = variants s
           \<and> \<not> span_index_ok s'"
  using assms(2-5)
  by (simp add: onDoc_merge(3) [OF assms(1)] js_get_own span_index_ok_def)

theorem onDoc_keeps_stale_index_witness:
  "wf_record (spans ex_incoming_short)
   \<and> (\<exists>s'. map_of (spans (onDoc ex_incoming_short (Some ex_prev))) (ascii ''s1'') = Some s'
          \<and> activeVariantIndex s' = Some 2 \<and> length (variants s') = 1 \<and> \<not> span_index_ok s')"
proof -
  have wf: "wf_record (spans ex_incoming_short)"
    by (simp add: ex_incoming_short_def wf_record_def)
  have a: "map_of (spans ex_incoming_short) (ascii ''s1'')
             = Some (ex_span ''s1'' ''one'' [ex_variant ''n'' neutral ''a''] 0)"
    by (simp add: ex_incoming_short_def)
  have b: "map_of (spans ex_prev) (ascii ''s1'') = Some (ex_span ''s1'' ''one'' ex_three 2)"
    by (simp add: ex_prev_def ascii_def)
  have c: "activeVariantIndex (ex_span ''s1'' ''one'' ex_three 2) = Some 2"
    by (simp add: ex_span_def)
  have d: "int (length (variants (ex_span ''s1'' ''one'' [ex_variant ''n'' neutral ''a''] 0))) \<le> 2"
    by (simp add: ex_span_def)
  from onDoc_keeps_stale_index [OF wf a b c d] wf show ?thesis
    by (auto simp: ex_span_def)
qed


section \<open>Properties of the content-filter pass\<close>

lemma js_findIndex_takeWhile:
  "js_findIndex P xs =
     (if list_ex P xs then int (length (takeWhile (\<lambda>x. \<not> P x) xs)) else -1)"
  by (induction xs) (auto simp: Let_def)

lemma js_index_takeWhile:
  "list_ex P xs \<Longrightarrow>
   \<exists>v. js_index xs (int (length (takeWhile (\<lambda>x. \<not> P x) xs))) = Some v \<and> P v"
proof -
  assume ex: "list_ex P xs"
  let ?n = "length (takeWhile (\<lambda>x. \<not> P x) xs)"
  from ex have lt: "?n < length xs"
    by (induction xs) auto
  then have "P (xs ! ?n)"
    using nth_length_takeWhile [of "\<lambda>x. \<not> P x" xs] by simp
  with lt show ?thesis by (simp add: js_index_def)
qed

lemma filter_step_eq:
  "filter_step (k, s) (acc, c) =
     (if active_is_vulgar s \<and> has_non_vulgar s
      then (AList.update k (reselect s) acc, True) else (acc, c))"
  by (auto simp: filter_step_def active_is_vulgar_def has_non_vulgar_def reselect_def
        js_findIndex_takeWhile Let_def split: option.splits)

lemma reselect_unaffected:
  "\<not> (active_is_vulgar s \<and> has_non_vulgar s) \<Longrightarrow> reselect s = s"
  by (auto simp: reselect_def)

lemma fst_reselect_entry: "fst (reselect_entry e) = fst e"
  by (cases e) (simp add: reselect_entry_def)

lemma fst_comp_reselect_entry: "fst \<circ> reselect_entry = fst"
  by (rule ext) (simp add: fst_reselect_entry)

lemma filter_fold_general:
  "distinct (map fst (ys @ xs)) \<Longrightarrow>
   fold filter_step xs (map reselect_entry ys @ xs, c)
     = (map reselect_entry (ys @ xs),
        c \<or> list_ex (\<lambda>e. active_is_vulgar (snd e) \<and> has_non_vulgar (snd e)) xs)"
proof (induction xs arbitrary: ys c)
  case Nil
  then show ?case by simp
next
  case (Cons e xs)
  obtain k s where e: "e = (k, s)" by (cases e)
  have "fst ` set (map reselect_entry ys) = fst ` set ys"
    by (simp add: image_image fst_reselect_entry)
  with Cons.prems e have notin: "k \<notin> fst ` set (map reselect_entry ys)"
    by auto
  let ?aff = "active_is_vulgar s \<and> has_non_vulgar s"
  have step: "filter_step e (map reselect_entry ys @ e # xs, c)
        = (map reselect_entry (ys @ [e]) @ xs, c \<or> ?aff)"
    using update_middle [OF notin] reselect_unaffected [of s]
    by (auto simp: filter_step_eq e reselect_entry_def)
  from Cons.prems have "distinct (map fst ((ys @ [e]) @ xs))" by simp
  from Cons.IH [OF this, of "c \<or> ?aff"] step show ?case
    by (auto simp: e)
qed

lemma filter_loop_eq:
  "wf_record (spans d) \<Longrightarrow>
   filter_loop d = (map reselect_entry (spans d),
                    list_ex (\<lambda>e. active_is_vulgar (snd e) \<and> has_non_vulgar (snd e)) (spans d))"
  using filter_fold_general [of "[]" "spans d" False]
  by (simp add: filter_loop_def wf_record_def)

lemma map_reselect_unaffected:
  "\<not> list_ex (\<lambda>e. active_is_vulgar (snd e) \<and> has_non_vulgar (snd e)) xs \<Longrightarrow>
   map reselect_entry xs = xs"
  by (induction xs) (auto simp: reselect_entry_def reselect_unaffected)

lemma content_filter_pass_eq:
  assumes "wf_record (spans d)"
  shows "content_filter_pass (Some d) = Some (d\<lparr>spans := map reselect_entry (spans d)\<rparr>)"
  using map_reselect_unaffected [of "spans d"]
  by (auto simp: content_filter_pass_def filter_loop_eq [OF assms])

lemma reselect_not_affected_after:
  "\<not> active_is_vulgar (reselect s) \<or> \<not> has_non_vulgar (reselect s)"
proof (cases "active_is_vulgar s \<and> has_non_vulgar s")
  case True
  let ?n = "int (length (takeWhile (\<lambda>v. v_register v = vulgar) (variants s)))"
  from True have "list_ex (\<lambda>v. v_register v \<noteq> vulgar) (variants s)"
    by (simp add: has_non_vulgar_def)
  from js_index_takeWhile [OF this]
  obtain v where v: "js_index (variants s) ?n = Some v" "v_register v \<noteq> vulgar"
    by auto
  from True have r: "reselect s = s\<lparr>activeVariantIndex := Some ?n\<rparr>"
    by (simp add: reselect_def)
  have "\<not> active_is_vulgar (reselect s)"
    unfolding r using v by (simp add: active_is_vulgar_def js_index_opt_def)
  then show ?thesis by simp
next
  case False
  then have "reselect s = s" by (auto simp: reselect_def)
  with False show ?thesis by auto
qed

lemma reselect_idem: "reselect (reselect s) = reselect s"
  using reselect_not_affected_after [of s] reselect_unaffected [of "reselect s"] by blast

lemma reselect_entry_idem: "reselect_entry (reselect_entry e) = reselect_entry e"
  by (cases e) (simp add: reselect_entry_def reselect_idem)

lemma wf_map_reselect: "wf_record xs \<Longrightarrow> wf_record (map reselect_entry xs)"
  by (simp add: wf_record_def fst_comp_reselect_entry)

lemma map_of_reselect:
  "map_of (map reselect_entry xs) k = map_option reselect (map_of xs k)"
  by (induction xs) (auto simp: reselect_entry_def)

text \<open>
  C3. The content-filter pass keeps tokens and span identities and replaces every span by
  its re-selection: a span whose active variant is vulgar and which has a variant that
  is not vulgar gets the index of the first such variant, any other span is the same
  as before, in particular one with no variant other than vulgar ones. Running the pass
  twice gives what running it once gives, and when no span is affected the flag
  \<open>changed\<close> stays false and the pass returns the document it was given.
\<close>

theorem content_filter_pass_reselects:
  assumes "wf_record (spans d)"
  shows "\<exists>d'. content_filter_pass (Some d) = Some d'
     \<and> tokens d' = tokens d
     \<and> map fst (spans d') = map fst (spans d)
     \<and> (\<forall>k s. map_of (spans d) k = Some s \<longrightarrow> map_of (spans d') k = Some (reselect s))
     \<and> (\<forall>k s. map_of (spans d) k = Some s \<and> \<not> has_non_vulgar s \<longrightarrow>
           map_of (spans d') k = Some s)
     \<and> content_filter_pass (content_filter_pass (Some d)) = content_filter_pass (Some d)
     \<and> ((\<forall>e \<in> set (spans d). \<not> (active_is_vulgar (snd e) \<and> has_non_vulgar (snd e))) \<longrightarrow>
           \<not> snd (filter_loop d) \<and> content_filter_pass (Some d) = Some d)"
proof -
  let ?d' = "d\<lparr>spans := map reselect_entry (spans d)\<rparr>"
  note eq = content_filter_pass_eq [OF assms]
  have wf': "wf_record (spans ?d')"
    using assms by (simp add: wf_map_reselect)
  have idem: "content_filter_pass (content_filter_pass (Some d)) = content_filter_pass (Some d)"
    unfolding eq content_filter_pass_eq [OF wf']
    by (simp add: reselect_entry_idem)
  have same: "(\<forall>e \<in> set (spans d). \<not> (active_is_vulgar (snd e) \<and> has_non_vulgar (snd e))) \<longrightarrow>
           \<not> snd (filter_loop d) \<and> content_filter_pass (Some d) = Some d"
    using map_reselect_unaffected [of "spans d"]
    by (auto simp: eq filter_loop_eq [OF assms] list_ex_iff)
  have keys: "map fst (spans ?d') = map fst (spans d)"
    by (simp add: fst_reselect_entry)
  have look: "\<forall>k s. map_of (spans d) k = Some s \<longrightarrow> map_of (spans ?d') k = Some (reselect s)"
    by (simp add: map_of_reselect)
  have keep: "\<forall>k s. map_of (spans d) k = Some s \<and> \<not> has_non_vulgar s \<longrightarrow>
           map_of (spans ?d') k = Some s"
    by (simp add: map_of_reselect reselect_def)
  show ?thesis
    using eq idem same keys look keep by simp
qed

theorem content_filter_pass_reselects_witness:
  "wf_record (spans ex_vulgar_doc)
   \<and> content_filter_pass (Some ex_vulgar_doc)
       = Some (ex_vulgar_doc\<lparr>spans :=
           [(ascii ''sa'', ex_span ''sa'' ''a'' [ex_variant ''v'' vulgar ''x'', ex_variant ''n'' neutral ''ok''] 1),
            (ascii ''sb'', ex_span ''sb'' ''b'' [ex_variant ''v'' vulgar ''x''] 0)]\<rparr>)
   \<and> content_filter_pass (content_filter_pass (Some ex_vulgar_doc))
       = content_filter_pass (Some ex_vulgar_doc)
   \<and> content_filter_pass (Some ex_prev) = Some ex_prev"
proof -
  have wf: "wf_record (spans ex_vulgar_doc)"
    by (simp add: ex_vulgar_doc_def wf_record_def ascii_def)
  have wf2: "wf_record (spans ex_prev)"
    by (simp add: ex_prev_def wf_record_def ascii_def)
  have un: "\<forall>e \<in> set (spans ex_prev). \<not> (active_is_vulgar (snd e) \<and> has_non_vulgar (snd e))"
    by (simp add: ex_prev_def active_is_vulgar_def js_index_opt_def js_index_def ex_span_def
          ex_three_def
          ex_variant_def)
  have run: "content_filter_pass (Some ex_vulgar_doc)
       = Some (ex_vulgar_doc\<lparr>spans :=
           [(ascii ''sa'', ex_span ''sa'' ''a'' [ex_variant ''v'' vulgar ''x'', ex_variant ''n'' neutral ''ok''] 1),
            (ascii ''sb'', ex_span ''sb'' ''b'' [ex_variant ''v'' vulgar ''x''] 0)]\<rparr>)"
    by (simp add: content_filter_pass_def filter_loop_def filter_step_def ex_vulgar_doc_def
          ex_span_def ex_variant_def js_index_opt_def js_index_def ascii_def)
  from content_filter_pass_reselects [OF wf] content_filter_pass_reselects [OF wf2] un wf run
  show ?thesis
    by auto
qed


section \<open>Properties of rendering in a register\<close>

lemma ascii_append: "ascii a @ ascii b = ascii (a @ b)"
  by (simp add: ascii_def)

lemma find_filter: "find P xs = (case filter P xs of [] \<Rightarrow> None | x # _ \<Rightarrow> Some x)"
  by (induction xs) auto

lemma then_do_simps: "then_do (Inl e) f = Inl e" "then_do (Inr x) f = f x"
  by (simp_all add: then_do_def)

lemma js_get_cases:
  "js_get r k = Absent \<Longrightarrow> map_of r k = None"
  "js_get r k = Inherited \<Longrightarrow> map_of r k = None"
  "js_get r k = Own v \<longleftrightarrow> map_of r k = Some v"
  by (auto simp: js_get_def split: option.splits if_splits)

lemma render_token_text:
  "\<not> inherited_ref d tok \<Longrightarrow> render_token d r tok (Inr out) = Inr (out @ token_text d r tok)"
  by (auto simp: render_token_def token_text_def resolve_by_precedence_def find_filter
        nullish_def js_index_def Let_def then_do_simps inherited_ref_def js_get_def
      split: DocToken.splits option.splits list.splits)

lemma render_token_throws:
  "inherited_ref d tok \<Longrightarrow> render_token d r tok (Inr out) = Inl TypeError"
  by (auto simp: render_token_def then_do_simps inherited_ref_def split: DocToken.splits)

lemma fold_render_token_error: "fold (render_token d r) block (Inl e) = Inl e"
  by (induction block) (simp_all add: render_token_def then_do_simps)

lemma fold_render_token:
  "list_all (\<lambda>tok. \<not> inherited_ref d tok) block \<Longrightarrow>
   fold (render_token d r) block (Inr out) = Inr (out @ concat (map (token_text d r) block))"
  by (induction block arbitrary: out) (simp_all add: render_token_text)

lemma fold_render_token_throws:
  "list_ex (inherited_ref d) block \<Longrightarrow> fold (render_token d r) block (Inr out) = Inl TypeError"
proof (induction block arbitrary: out)
  case Nil
  then show ?case by simp
next
  case (Cons tok block)
  show ?case
  proof (cases "inherited_ref d tok")
    case True
    then show ?thesis by (simp add: render_token_throws fold_render_token_error)
  next
    case False
    with Cons show ?thesis by (simp add: render_token_text)
  qed
qed

text \<open>What the rendering gives: for a block with no span token that finds an inherited
  property, the concatenation, token by token, of the literal text and, for a span token,
  of the text of the first variant of the register, else of the first neutral variant,
  else of the first variant, else, with no variant or no span, of the ellipsis; for a
  block with such a token, a \<open>TypeError\<close>.\<close>

lemma renderBlockForRegister_precedence:
  assumes "0 \<le> i" and "i < int (length (docBlocks (Some d)))"
  shows "renderBlockForRegister (Some d) i register
           = (if list_ex (inherited_ref d) (docBlocks (Some d) ! nat i) then Inl TypeError
              else Inr (concat (map (token_text d register) (docBlocks (Some d) ! nat i))))"
proof (cases "list_ex (inherited_ref d) (docBlocks (Some d) ! nat i)")
  case True
  with assms show ?thesis
    by (simp add: renderBlockForRegister_def js_index_def fold_render_token_throws)
next
  case False
  then have "list_all (\<lambda>tok. \<not> inherited_ref d tok) (docBlocks (Some d) ! nat i)"
    by (simp add: list_all_iff list_ex_iff)
  with assms False show ?thesis
    by (simp add: renderBlockForRegister_def js_index_def fold_render_token)
qed

lemma ex_render_blocks:
  "docBlocks (Some ex_render_doc)
     = [[TextTok (ascii ''x ''), SpanTok (ascii ''s1'')], [SpanTok (ascii ''s2''), TextTok (ascii ''!'')]]"
  by (simp add: docBlocks_def ex_render_doc_def split_blocks_def is_separator_def
        block_separator_def ascii_def)

lemma ex_render:
  "renderBlockForRegister (Some ex_render_doc) 0 casual = Inr (ascii ''x a'')"
  "renderBlockForRegister (Some ex_render_doc) 0 formal = Inr (ascii ''x B'')"
  "renderBlockForRegister (Some ex_render_doc) 1 casual = Inr (ellipsis @ ascii ''!'')"
  unfolding renderBlockForRegister_def ex_render_blocks
  by (simp_all add: js_index_def render_token_def then_do_simps js_get_def ex_render_doc_def
        ex_span_def ex_variant_def nullish_def ascii_def)

lemma ex_dangling_blocks:
  "docBlocks (Some ex_dangling_doc)
     = [[TextTok (ascii ''see ''), SpanTok (ascii ''sx''), TextTok (ascii '' and ''),
         SpanTok (ascii ''constructor'')]]"
  by (simp add: docBlocks_def ex_dangling_doc_def split_blocks_def is_separator_def
        block_separator_def ascii_def)

lemma ex_dangling_get:
  "js_get (spans ex_dangling_doc) (ascii ''constructor'') = Inherited"
  "js_get (spans ex_dangling_doc) (ascii ''sx'')
     = Own (ex_span ''sx'' ''src'' [ex_variant ''v1'' neutral ''ok'', ex_variant ''v2'' vulgar ''x''] 0)"
  by (simp_all add: js_get_def ex_dangling_doc_def object_prototype_keys_def ascii_def)

text \<open>
  C2 on the code. The only block of the document holds the span token \<open>constructor\<close>, and
  the document has no span of that name. \<open>doc.spans['constructor']\<close> is the function that
  every object inherits, \<open>!span\<close> is false, and \<open>span.variants.length\<close> throws: the
  rendering gives no string, in any register, where the precedence ends with the
  ellipsis.
\<close>

theorem renderBlockForRegister_inherited_key:
  "renderBlockForRegister (Some ex_dangling_doc) 0 neutral = Inl TypeError
   \<and> renderBlockForRegister (Some ex_dangling_doc) 0 formal = Inl TypeError
   \<and> concat (map (token_text ex_dangling_doc neutral) (docBlocks (Some ex_dangling_doc) ! 0))
       = ascii ''see ok and '' @ ellipsis"
proof -
  have 1: "renderBlockForRegister (Some ex_dangling_doc) 0 r = Inl TypeError" for r
    unfolding renderBlockForRegister_def ex_dangling_blocks
    by (simp add: js_index_def render_token_def then_do_simps ex_dangling_get ex_span_def
          ex_variant_def nullish_def)
  have 2: "concat (map (token_text ex_dangling_doc neutral) (docBlocks (Some ex_dangling_doc) ! 0))
       = ascii ''see ok and '' @ ellipsis"
    unfolding ex_dangling_blocks
    by (simp add: token_text_def resolve_by_precedence_def ex_dangling_doc_def ex_span_def
          ex_variant_def ascii_def)
  from 1 2 show ?thesis by simp
qed


section \<open>Properties of active-variant resolution\<close>

lemma with_default_index_number:
  "activeVariantIndex s = Some i \<Longrightarrow> with_default_index s = s"
  by (simp add: with_default_index_def index_or_0_def)

lemma with_default_index_fields:
  "variants (with_default_index s) = variants s"
  "sourceText (with_default_index s) = sourceText s"
  "activeVariantIndex (with_default_index s) = Some (index_or_0 s)"
  by (simp_all add: with_default_index_def)

lemma interactive_label_cases:
  assumes "js_get (spans d) k \<noteq> Inherited"
  shows "interactive_label d k =
     Inr (case map_of (spans d) k of
            None \<Rightarrow> ellipsis
          | Some s \<Rightarrow> variant_or_source (with_default_index s))"
  using assms
  by (auto simp: interactive_label_def js_get_def variant_or_source_def
        with_default_index_fields js_index_opt_def nullish_def Let_def
      split: option.splits if_splits)

lemma practice_span_text_cases:
  assumes "js_get (spans d) k \<noteq> Inherited"
  shows "practice_span_text d k =
     Inr (case map_of (spans d) k of
            None \<Rightarrow> three_dots
          | Some s \<Rightarrow>
              (case js_index_opt (variants s) (activeVariantIndex s) of
                 Some v \<Rightarrow> v_text v
               | None \<Rightarrow> (case variants s of [] \<Rightarrow> three_dots | v # _ \<Rightarrow> v_text v)))"
  using assms
  by (auto simp: practice_span_text_def js_get_def nullish_def js_index_def js_index_opt_def
      split: option.splits list.splits if_splits)

lemma masked_index:
  "(if cf \<and> active_is_vulgar (with_default_index s)
    then (let next = js_findIndex (\<lambda>v. v_register v \<noteq> vulgar) (variants s)
          in if next \<ge> 0 then next else index_or_0 s)
    else index_or_0 s)
   = index_or_0 (if cf then reselect (with_default_index s) else with_default_index s)"
  by (simp add: js_findIndex_takeWhile reselect_def has_non_vulgar_def Let_def
        with_default_index_fields index_or_0_def)

lemma reselect_fields: "variants (reselect s) = variants s" "sourceText (reselect s) = sourceText s"
  by (simp_all add: reselect_def)

lemma reselect_index_defined:
  "activeVariantIndex s = Some i \<Longrightarrow>
   activeVariantIndex (reselect s) = Some (index_or_0 (reselect s))"
  by (simp add: reselect_def index_or_0_def)

lemma masked_other_span_cases:
  assumes "js_get (spans d) k \<noteq> Inherited"
  shows "masked_other_span cf d k =
     Inr (case map_of (spans d) k of
            None \<Rightarrow> ellipsis
          | Some s \<Rightarrow>
              if variants s = [] then ellipsis
              else variant_or_source (if cf then reselect (with_default_index s)
                                      else with_default_index s))"
proof (cases "map_of (spans d) k")
  case None
  with assms show ?thesis
    by (simp add: masked_other_span_def js_get_def split: if_splits)
next
  case (Some s)
  then have g: "js_get (spans d) k = Own s" by (simp add: js_get_def)
  let ?w = "with_default_index s"
  have v: "(map_option v_register (js_index (variants s) (index_or_0 s)) = Some vulgar)
             = active_is_vulgar ?w"
    by (auto simp: active_is_vulgar_def with_default_index_fields js_index_opt_def
        split: option.splits)
  let ?s' = "if cf then reselect ?w else ?w"
  have f: "variants ?s' = variants s" "sourceText ?s' = sourceText s"
    by (simp_all add: reselect_fields with_default_index_fields)
  have i: "activeVariantIndex ?s' = Some (index_or_0 ?s')"
    using reselect_index_defined [of ?w "index_or_0 s"]
    by (simp add: with_default_index_fields index_or_0_def)
  have "masked_other_span cf d k =
          Inr (if variants s = [] then ellipsis
               else (case js_index (variants s) (index_or_0 ?s') of
                       Some x \<Rightarrow> v_text x
                     | None \<Rightarrow> sourceText s))"
    unfolding masked_other_span_def g js_prop.case v Let_def masked_index [unfolded Let_def]
    by (simp add: nullish_def split: option.splits)
  also have "\<dots> = Inr (if variants s = [] then ellipsis else variant_or_source ?s')"
    unfolding variant_or_source_def f i by (simp add: js_index_opt_def)
  finally show ?thesis by (simp add: Some)
qed

text \<open>On a span token that finds an inherited property each of the three throws.\<close>

lemma inherited_key_throws:
  assumes "js_get (spans d) k = Inherited"
  shows "interactive_label d k = Inl TypeError"
    and "practice_span_text d k = Inl TypeError"
    and "masked_other_span cf d k = Inl TypeError"
  using assms
  by (simp_all add: interactive_label_def practice_span_text_def masked_other_span_def)

text \<open>
  C7, as the code has it, for a span id that is a key of the document's spans or that
  names no property at all. The label of the interactive view follows the contract: the
  text of the variant at \<open>activeVariantIndex\<close>, else the span's source text, else, with
  no such span, the ellipsis. PracticeView does not: with no variant at the active index
  it takes the first variant, and with no span or no variant at all it writes three
  full stops. The masked context follows the contract on the re-selected span, but writes
  the ellipsis for a span with no variant. An empty variant list or an index out of range
  makes none of them throw. (The interactive view and the masked context read the index
  with \<open>?? 0\<close>, which changes nothing for an index that is a number.)
\<close>

theorem active_variant_resolution:
  assumes "js_get (spans d) k \<noteq> Inherited"
  shows "interactive_label d k =
       Inr (case map_of (spans d) k of
              None \<Rightarrow> ellipsis
            | Some s \<Rightarrow> variant_or_source (with_default_index s))
   \<and> practice_span_text d k =
       Inr (case map_of (spans d) k of
              None \<Rightarrow> three_dots
            | Some s \<Rightarrow>
                (case js_index_opt (variants s) (activeVariantIndex s) of
                   Some v \<Rightarrow> v_text v
                 | None \<Rightarrow> (case variants s of [] \<Rightarrow> three_dots | v # _ \<Rightarrow> v_text v)))
   \<and> masked_other_span cf d k =
       Inr (case map_of (spans d) k of
              None \<Rightarrow> ellipsis
            | Some s \<Rightarrow>
                if variants s = [] then ellipsis
                else variant_or_source (if cf then reselect (with_default_index s)
                                        else with_default_index s))
   \<and> (\<forall>s i. activeVariantIndex s = Some i \<longrightarrow> with_default_index s = s)"
  using interactive_label_cases [OF assms] practice_span_text_cases [OF assms]
    masked_other_span_cases [OF assms, of cf] with_default_index_number
  by simp

lemma ex_stale_get:
  "js_get (spans ex_stale_doc) (ascii ''s1'')
     = Own (ex_span ''s1'' ''one'' [ex_variant ''n'' neutral ''a''] 5)"
  "js_get (spans ex_stale_doc) (ascii ''s9'') = Absent"
  by (simp_all add: js_get_def ex_stale_doc_def object_prototype_keys_def ascii_def)

theorem active_variant_resolution_witness:
  "js_get (spans ex_stale_doc) (ascii ''s1'') \<noteq> Inherited
   \<and> js_get (spans ex_stale_doc) (ascii ''s9'') \<noteq> Inherited
   \<and> interactive_label ex_stale_doc (ascii ''s1'') = Inr (ascii ''one'')
   \<and> interactive_label ex_stale_doc (ascii ''s9'') = Inr ellipsis
   \<and> practice_span_text ex_stale_doc (ascii ''s1'') = Inr (ascii ''a'')
   \<and> practice_span_text ex_stale_doc (ascii ''s9'') = Inr three_dots
   \<and> masked_other_span True ex_stale_doc (ascii ''s1'') = Inr (ascii ''one'')"
proof -
  have 1: "js_get (spans ex_stale_doc) (ascii ''s1'') \<noteq> Inherited"
    and 9: "js_get (spans ex_stale_doc) (ascii ''s9'') \<noteq> Inherited"
    by (simp_all add: ex_stale_get)
  have m1: "map_of (spans ex_stale_doc) (ascii ''s1'')
              = Some (ex_span ''s1'' ''one'' [ex_variant ''n'' neutral ''a''] 5)"
    and m9: "map_of (spans ex_stale_doc) (ascii ''s9'') = None"
    by (simp_all add: ex_stale_doc_def ascii_def)
  from active_variant_resolution [OF 1, of True] active_variant_resolution [OF 9, of True] 1 9
  show ?thesis
    unfolding m1 m9
    by (simp add: variant_or_source_def with_default_index_def index_or_0_def
          js_index_opt_def js_index_def ex_span_def ex_variant_def reselect_def
          active_is_vulgar_def)
qed

theorem practice_span_text_counterexample:
  "practice_span_text ex_stale_doc (ascii ''s1'')
     \<noteq> Inr (active_variant_contract ex_stale_doc (ascii ''s1''))"
proof -
  have m1: "map_of (spans ex_stale_doc) (ascii ''s1'')
              = Some (ex_span ''s1'' ''one'' [ex_variant ''n'' neutral ''a''] 5)"
    by (simp add: ex_stale_doc_def)
  show ?thesis
    unfolding practice_span_text_def active_variant_contract_def ex_stale_get m1
    by (simp add: variant_or_source_def js_index_opt_def js_index_def nullish_def ex_span_def
          ex_variant_def ascii_def)
qed


section \<open>Properties of flashcard derivation\<close>

lemma js_trim_Nil: "js_trim [] = []"
  by (simp add: js_trim_def)

lemma gives_card_iff:
  "gives_card cf v \<longleftrightarrow> \<not> (v_text v = [] \<or> js_trim (v_text v) = []) \<and> \<not> (cf \<and> v_register v = vulgar)"
  by (auto simp: gives_card_def js_trim_Nil)

lemma blocks_loop_all:
  "list_all (list_all P) blocks \<Longrightarrow> list_all P cur \<Longrightarrow> list_all P toks \<Longrightarrow>
   list_all (list_all P) (blocks_loop toks blocks cur)"
  by (induction toks arbitrary: blocks cur) simp_all

lemma split_blocks_all: "list_all P toks \<Longrightarrow> list_all (list_all P) (split_blocks toks)"
  unfolding split_blocks_def by (rule blocks_loop_all) simp_all

lemma find_in_set: "find P xs = Some x \<Longrightarrow> x \<in> set xs"
  by (induction xs) (auto split: if_splits)

lemma masked_other_span_returns:
  "js_get (spans d) k \<noteq> Inherited \<Longrightarrow> \<exists>t. masked_other_span cf d k = Inr t"
  by (cases "js_get (spans d) k") (simp_all add: masked_other_span_def Let_def)

lemma masked_token_returns:
  assumes "\<not> inherited_ref d tok"
  shows "\<exists>out'. masked_token cf d target tok (Inr out) = Inr out'"
proof (cases tok)
  case (TextTok v)
  then show ?thesis by (simp add: masked_token_def then_do_simps)
next
  case (SpanTok k)
  with assms have "js_get (spans d) k \<noteq> Inherited"
    by (simp add: inherited_ref_def)
  from masked_other_span_returns [OF this, of cf] obtain t
    where "masked_other_span cf d k = Inr t" by blast
  with SpanTok show ?thesis by (simp add: masked_token_def then_do_simps)
qed

lemma fold_masked_token_returns:
  "list_all (\<lambda>tok. \<not> inherited_ref d tok) block \<Longrightarrow>
   \<exists>out'. fold (masked_token cf d target) block (Inr out) = Inr out'"
proof (induction block arbitrary: out)
  case Nil
  then show ?case by simp
next
  case (Cons tok block)
  then have "\<not> inherited_ref d tok" by simp
  from masked_token_returns [OF this, of cf target out] obtain out'
    where "masked_token cf d target tok (Inr out) = Inr out'" by blast
  with Cons show ?case by simp
qed

lemma buildMaskedContext_returns:
  assumes "doc_closed d"
  shows "buildMaskedContext cf d k = Inr (context_of cf d k)"
proof (cases "find (list_ex (is_target k)) (split_blocks (tokens d))")
  case None
  then show ?thesis by (simp add: buildMaskedContext_def context_of_def)
next
  case (Some block)
  from assms have "list_all (list_all (\<lambda>tok. \<not> inherited_ref d tok)) (split_blocks (tokens d))"
    unfolding doc_closed_def by (rule split_blocks_all)
  with find_in_set [OF Some] have "list_all (\<lambda>tok. \<not> inherited_ref d tok) block"
    by (simp add: list_all_iff)
  from fold_masked_token_returns [OF this, of cf k "[]"] obtain out
    where "fold (masked_token cf d k) block (Inr []) = Inr out" by blast
  then show ?thesis
    by (simp add: buildMaskedContext_def context_of_def Some then_do_simps)
qed

lemma variant_step_eq:
  assumes "doc_closed d"
  shows "variant_step cf story tr d k sp v (Inr out)
     = Inr (if gives_card cf v then out @ [make_card story tr k sp v (context_of cf d k)] else out)"
proof (cases "gives_card cf v")
  case True
  then show ?thesis
    by (simp add: variant_step_def gives_card_iff then_do_simps
          buildMaskedContext_returns [OF assms])
next
  case False
  then show ?thesis
    by (auto simp: variant_step_def gives_card_iff then_do_simps)
qed

lemma fold_variant_step:
  assumes "doc_closed d"
  shows "fold (variant_step cf story tr d k sp) vs (Inr out)
     = Inr (out @ map (\<lambda>v. make_card story tr k sp v (context_of cf d k))
                    (filter (gives_card cf) vs))"
  by (induction vs arbitrary: out) (simp_all add: variant_step_eq [OF assms])

lemma span_step_eq:
  "doc_closed d \<Longrightarrow> span_step cf story tr d e (Inr out) = Inr (out @ cards_of_span cf story tr d e)"
  by (cases e) (simp add: span_step_def cards_of_span_def fold_variant_step)

lemma fold_span_step:
  "doc_closed d \<Longrightarrow>
   fold (span_step cf story tr d) es (Inr out)
     = Inr (out @ concat (map (cards_of_span cf story tr d) es))"
  by (induction es arbitrary: out) (simp_all add: span_step_eq)

lemma translation_step_eq:
  "(case tr_doc tr of None \<Rightarrow> True | Some d \<Rightarrow> doc_closed d) \<Longrightarrow>
   translation_step cf story tr (Inr out) = Inr (out @ cards_of_translation cf story tr)"
  by (simp add: translation_step_def cards_of_translation_def fold_span_step split: option.splits)

lemma fold_translation_step:
  "list_all (\<lambda>tr. case tr_doc tr of None \<Rightarrow> True | Some d \<Rightarrow> doc_closed d) trs \<Longrightarrow>
   fold (translation_step cf story) trs (Inr out)
     = Inr (out @ concat (map (cards_of_translation cf story) trs))"
  by (induction trs arbitrary: out) (simp_all add: translation_step_eq)

lemma story_step_eq:
  "story_closed story \<Longrightarrow> story_step cf story (Inr out) = Inr (out @ cards_of_story cf story)"
  by (simp add: story_step_def cards_of_story_def story_closed_def fold_translation_step)

lemma fold_story_step:
  "list_all story_closed stories \<Longrightarrow>
   fold (story_step cf) stories (Inr out) = Inr (out @ concat (map (cards_of_story cf) stories))"
  by (induction stories arbitrary: out) (simp_all add: story_step_eq)

lemma make_card_fields:
  "c_id (make_card story tr k sp v c)
     = story_id story @ colon @ tr_language tr @ colon @ k @ colon @ v_id v"
  "c_register (make_card story tr k sp v c) = v_register v"
  "c_storyId (make_card story tr k sp v c) = story_id story"
  "c_storyTitle (make_card story tr k sp v c) = title story"
  "c_language (make_card story tr k sp v c) = tr_language tr"
  "c_spanId (make_card story tr k sp v c) = k"
  "c_variantId (make_card story tr k sp v c) = v_id v"
  by (simp_all add: make_card_def)

lemma id_composite_cards: "list_all id_composite (concat (map (cards_of_story cf) stories))"
  by (auto simp: cards_of_story_def cards_of_translation_def cards_of_span_def
        list_all_iff id_composite_def make_card_fields split: option.splits)

lemma gives_card_filter:
  "filter (gives_card True) vs = filter (\<lambda>v. v_register v \<noteq> vulgar) (filter (gives_card False) vs)"
  by (induction vs) (auto simp: gives_card_def)

lemma ids_of_span:
  "map c_id (cards_of_span True story tr d e)
     = map c_id (filter (\<lambda>c. c_register c \<noteq> vulgar) (cards_of_span False story tr d e))"
  by (simp add: cards_of_span_def gives_card_filter filter_map comp_def make_card_fields)

lemma ids_of_translation:
  "map c_id (cards_of_translation True story tr)
     = map c_id (filter (\<lambda>c. c_register c \<noteq> vulgar) (cards_of_translation False story tr))"
proof (cases "tr_doc tr")
  case None
  then show ?thesis by (simp add: cards_of_translation_def)
next
  case (Some d)
  have "map c_id (concat (map (cards_of_span True story tr d) es))
      = map c_id (filter (\<lambda>c. c_register c \<noteq> vulgar) (concat (map (cards_of_span False story tr d) es)))"
    for es
    by (induction es) (simp_all add: ids_of_span)
  then show ?thesis by (simp add: cards_of_translation_def Some)
qed

lemma ids_of_story:
  "map c_id (cards_of_story True story)
     = map c_id (filter (\<lambda>c. c_register c \<noteq> vulgar) (cards_of_story False story))"
proof -
  have "map c_id (concat (map (cards_of_translation True story) trs))
      = map c_id (filter (\<lambda>c. c_register c \<noteq> vulgar) (concat (map (cards_of_translation False story) trs)))"
    for trs
    by (induction trs) (simp_all add: ids_of_translation)
  then show ?thesis unfolding cards_of_story_def by blast
qed

lemma ids_of_stories:
  "map c_id (concat (map (cards_of_story True) stories))
     = map c_id (filter (\<lambda>c. c_register c \<noteq> vulgar) (concat (map (cards_of_story False) stories)))"
  by (induction stories) (simp_all add: ids_of_story)

lemma mset_insert_by: "mset (insert_by cmp x ys) = add_mset x (mset ys)"
  by (induction ys) simp_all

lemma mset_js_sort: "mset (js_sort cmp xs) = mset xs"
  by (induction xs) (simp_all add: js_sort_def mset_insert_by)

text \<open>What the derivation gives for stories none of whose documents holds a span token that
  finds an inherited property: story by story, translation by translation with a
  document, span by span and variant by variant, one card for each variant whose trimmed
  text is not empty and which, under content filtering, is not vulgar; identities made of
  story, language, span and variant, the same with filtering on as for the cards that
  are not vulgar with filtering off; and the sort keeps the cards.\<close>

lemma emit_cards_closed:
  assumes "list_all story_closed stories"
  shows "emit_cards cf stories = Inr (concat (map (cards_of_story cf) stories))"
    and "list_all id_composite (concat (map (cards_of_story cf) stories))"
    and "map c_id (concat (map (cards_of_story True) stories))
          = map c_id (filter (\<lambda>c. c_register c \<noteq> vulgar)
                        (concat (map (cards_of_story False) stories)))"
    and "\<exists>sorted. allCards lc cf stories = Inr sorted
          \<and> mset sorted = mset (concat (map (cards_of_story cf) stories))"
proof -
  show e: "emit_cards cf stories = Inr (concat (map (cards_of_story cf) stories))"
    using fold_story_step [OF assms, of cf "[]"] by (simp add: emit_cards_def)
  show "list_all id_composite (concat (map (cards_of_story cf) stories))"
    by (rule id_composite_cards)
  show "map c_id (concat (map (cards_of_story True) stories))
          = map c_id (filter (\<lambda>c. c_register c \<noteq> vulgar)
                        (concat (map (cards_of_story False) stories)))"
    by (rule ids_of_stories)
  show "\<exists>sorted. allCards lc cf stories = Inr sorted
          \<and> mset sorted = mset (concat (map (cards_of_story cf) stories))"
    by (simp add: allCards_def e then_do_simps mset_js_sort)
qed

lemma ex_card_doc_closed: "doc_closed ex_card_doc"
  by (simp add: doc_closed_def ex_card_doc_def inherited_ref_def js_get_def)

lemma ex_story_closed: "story_closed (ex_story i t lang ex_card_doc)"
  by (simp add: story_closed_def ex_story_def ex_translation_def ex_card_doc_closed)

lemma ex_cards_of_story:
  "cards_of_story cf (ex_story i t lang d)
     = map (\<lambda>v. make_card (ex_story i t lang d) (ex_translation lang d) (ascii ''sx'') ex_sx v
                   (context_of cf d (ascii ''sx'')))
         (filter (gives_card cf) (variants ex_sx))"
  if "spans d = [(ascii ''sx'', ex_sx)]"
  using that
  by (simp add: cards_of_story_def cards_of_translation_def cards_of_span_def ex_story_def
        ex_translation_def)

lemma ex_gives_card:
  "filter (gives_card False) (variants ex_sx)
     = [ex_variant ''v1'' neutral ''ok'', ex_variant ''v2'' vulgar ''x'']"
  "filter (gives_card True) (variants ex_sx) = [ex_variant ''v1'' neutral ''ok'']"
  by (simp_all add: ex_sx_def ex_span_def gives_card_def ex_variant_def js_trim_def
        is_js_space_def ascii_def)

text \<open>The example of the specification: the span \<open>sx\<close> with a neutral and a vulgar
  variant gives two cards with filtering off and one with filtering on.\<close>

lemma ex_emit_cards:
  "\<exists>a b. emit_cards False [ex_story ''st1'' (ascii ''Alpha'') ''fr'' ex_card_doc] = Inr [a, b]
         \<and> c_id a = ascii ''st1:fr:sx:v1'' \<and> c_id b = ascii ''st1:fr:sx:v2''"
  "\<exists>a. emit_cards True [ex_story ''st1'' (ascii ''Alpha'') ''fr'' ex_card_doc] = Inr [a]
         \<and> c_id a = ascii ''st1:fr:sx:v1''"
proof -
  have sp: "spans ex_card_doc = [(ascii ''sx'', ex_sx)]"
    by (simp add: ex_card_doc_def ex_sx_def)
  have cl: "list_all story_closed [ex_story ''st1'' (ascii ''Alpha'') ''fr'' ex_card_doc]"
    by (simp add: ex_story_closed)
  show "\<exists>a b. emit_cards False [ex_story ''st1'' (ascii ''Alpha'') ''fr'' ex_card_doc] = Inr [a, b]
         \<and> c_id a = ascii ''st1:fr:sx:v1'' \<and> c_id b = ascii ''st1:fr:sx:v2''"
    unfolding emit_cards_closed(1) [OF cl]
    by (simp add: ex_cards_of_story [OF sp] ex_gives_card make_card_fields)
      (simp add: ex_story_def ex_translation_def ex_variant_def colon_def ascii_def)
  show "\<exists>a. emit_cards True [ex_story ''st1'' (ascii ''Alpha'') ''fr'' ex_card_doc] = Inr [a]
         \<and> c_id a = ascii ''st1:fr:sx:v1''"
    unfolding emit_cards_closed(1) [OF cl]
    by (simp add: ex_cards_of_story [OF sp] ex_gives_card make_card_fields)
      (simp add: ex_story_def ex_translation_def ex_variant_def colon_def ascii_def)
qed

lemma ex_dangling_context: "buildMaskedContext cf ex_dangling_doc (ascii ''sx'') = Inl TypeError"
proof -
  have b: "split_blocks (tokens ex_dangling_doc)
     = [[TextTok (ascii ''see ''), SpanTok (ascii ''sx''), TextTok (ascii '' and ''),
         SpanTok (ascii ''constructor'')]]"
    using ex_dangling_blocks by (simp add: docBlocks_def)
  have m: "masked_other_span cf ex_dangling_doc (ascii ''constructor'') = Inl TypeError"
    by (simp add: masked_other_span_def ex_dangling_get)
  have ne: "ascii ''constructor'' \<noteq> ascii ''sx''"
    by (simp add: ascii_def)
  show ?thesis
    unfolding buildMaskedContext_def b
    by (simp add: is_target_def masked_token_def then_do_simps m ne)
qed

text \<open>
  C6 on the code. The story has one translation, whose document has the span \<open>sx\<close> with a
  neutral variant \<open>ok\<close> and a vulgar variant \<open>x\<close>, and in the block of \<open>sx\<close> a span token
  \<open>constructor\<close> with no span of that name. For the first variant \<open>buildMaskedContext\<close>
  reaches that token, \<open>doc.spans['constructor']\<close> is the inherited function, and
  \<open>span.variants.length\<close> throws: the derivation gives no card, with filtering off or on,
  where the variants of \<open>sx\<close> ask for two cards and one.
\<close>

theorem emit_cards_inherited_key:
  "emit_cards False [ex_story ''st1'' (ascii ''Alpha'') ''fr'' ex_dangling_doc] = Inl TypeError
   \<and> emit_cards True [ex_story ''st1'' (ascii ''Alpha'') ''fr'' ex_dangling_doc] = Inl TypeError
   \<and> allCards ex_locale_compare False [ex_story ''st1'' (ascii ''Alpha'') ''fr'' ex_dangling_doc]
       = Inl TypeError
   \<and> length (filter (gives_card False) (variants ex_sx)) = 2
   \<and> length (filter (gives_card True) (variants ex_sx)) = 1"
proof -
  have sp: "spans ex_dangling_doc = [(ascii ''sx'', ex_sx)]"
    by (simp add: ex_dangling_doc_def ex_sx_def)
  have v: "variants ex_sx = [ex_variant ''v1'' neutral ''ok'', ex_variant ''v2'' vulgar ''x'']"
    by (simp add: ex_sx_def ex_span_def)
  have t: "v_text (ex_variant ''v1'' neutral ''ok'') \<noteq> []"
    "js_trim (v_text (ex_variant ''v1'' neutral ''ok'')) \<noteq> []"
    "v_register (ex_variant ''v1'' neutral ''ok'') \<noteq> vulgar"
    by (simp_all add: ex_variant_def js_trim_def is_js_space_def ascii_def)
  have e: "emit_cards cf [ex_story ''st1'' (ascii ''Alpha'') ''fr'' ex_dangling_doc] = Inl TypeError"
    for cf
    by (simp add: emit_cards_def story_step_def translation_step_def span_step_def
          ex_story_def ex_translation_def sp v variant_step_def t then_do_simps
          ex_dangling_context)
  from e [of False] e [of True] show ?thesis
    by (simp add: allCards_def then_do_simps ex_gives_card)
qed


section \<open>Properties of the order of the cards\<close>


lemma set_insert_by: "set (insert_by cmp x ys) = insert x (set ys)"
  by (induction ys) auto

lemma sorted_insert_by:
  assumes total: "\<And>a b. cmp a b \<le> 0 \<or> cmp b a \<le> 0"
    and trans: "\<And>a b c. cmp a b \<le> 0 \<Longrightarrow> cmp b c \<le> 0 \<Longrightarrow> cmp a c \<le> 0"
  shows "sorted_wrt (\<lambda>a b. cmp a b \<le> 0) ys \<Longrightarrow> sorted_wrt (\<lambda>a b. cmp a b \<le> 0) (insert_by cmp x ys)"
proof (induction ys)
  case Nil
  then show ?case by simp
next
  case (Cons y ys)
  show ?case
  proof (cases "cmp x y \<le> 0")
    case True
    with Cons.prems trans show ?thesis by auto
  next
    case False
    with total [of x y] have "cmp y x \<le> 0" by simp
    with False Cons show ?thesis by (auto simp: set_insert_by)
  qed
qed

lemma sorted_js_sort:
  assumes "\<And>a b. cmp a b \<le> 0 \<or> cmp b a \<le> 0"
    and "\<And>a b c. cmp a b \<le> 0 \<Longrightarrow> cmp b c \<le> 0 \<Longrightarrow> cmp a c \<le> 0"
  shows "sorted_wrt (\<lambda>a b. cmp a b \<le> 0) (js_sort cmp xs)"
  unfolding js_sort_def
  by (induction xs) (simp_all add: sorted_insert_by [OF assms])

lemma filter_insert_by:
  assumes "\<And>y. P x \<Longrightarrow> P y \<Longrightarrow> cmp x y \<le> 0"
  shows "filter P (insert_by cmp x ys) = (if P x then x # filter P ys else filter P ys)"
  using assms by (induction ys) auto

lemma filter_js_sort:
  assumes "\<And>x y. P x \<Longrightarrow> P y \<Longrightarrow> cmp x y \<le> 0"
  shows "filter P (js_sort cmp xs) = filter P xs"
  unfolding js_sort_def
  by (induction xs) (simp_all add: filter_insert_by [of P _ cmp, OF assms])


text \<open>With a comparison function that is total and transitive on the cards, the list of
  the cards is in its order.\<close>

lemma allCards_sorted_by_comparison:
  assumes "list_all story_closed stories"
    and "\<And>a b. card_compare lc a b \<le> 0 \<or> card_compare lc b a \<le> 0"
    and "\<And>a b c. card_compare lc a b \<le> 0 \<Longrightarrow> card_compare lc b c \<le> 0 \<Longrightarrow>
           card_compare lc a c \<le> 0"
  shows "\<exists>out. allCards lc cf stories = Inr out
           \<and> sorted_wrt (\<lambda>a b. card_compare lc a b \<le> 0) out"
  using sorted_js_sort [of "card_compare lc", OF assms(2,3)]
  by (simp add: allCards_def emit_cards_closed(1) [OF assms(1)] then_do_simps)

lemma card_compare_cases:
  "c_storyTitle a \<noteq> c_storyTitle b \<Longrightarrow> card_compare lc a b = lc (c_storyTitle a) (c_storyTitle b)"
  "c_storyTitle a = c_storyTitle b \<Longrightarrow> c_language a \<noteq> c_language b \<Longrightarrow>
     card_compare lc a b = lc (c_language a) (c_language b)"
  "c_storyTitle a = c_storyTitle b \<Longrightarrow> c_language a = c_language b \<Longrightarrow>
     card_compare lc a b = lc (c_sourceText a) (c_sourceText b)"
  by (simp_all add: card_compare_def)

lemma ex_story_cards_filtered:
  "cards_of_story True (ex_story i t lang ex_card_doc)
     = [make_card (ex_story i t lang ex_card_doc) (ex_translation lang ex_card_doc)
          (ascii ''sx'') ex_sx (ex_variant ''v1'' neutral ''ok'')
          (context_of True ex_card_doc (ascii ''sx''))]"
proof -
  have sp: "spans ex_card_doc = [(ascii ''sx'', ex_sx)]"
    by (simp add: ex_card_doc_def ex_sx_def)
  show ?thesis by (simp add: ex_cards_of_story [OF sp] ex_gives_card)
qed

lemma ex_card_keys:
  "c_storyTitle (make_card (ex_story i t lang d) (ex_translation lang d) k sp v c) = t"
  "c_language (make_card (ex_story i t lang d) (ex_translation lang d) k sp v c) = ascii lang"
  "c_sourceText (make_card (ex_story i t lang d) (ex_translation lang d) k sp v c) = sourceText sp"
  by (simp_all add: make_card_def ex_story_def ex_translation_def)

text \<open>The example of the specification: two stories titled \<open>Bravo\<close> and \<open>Alpha\<close>, in this
  order, with one card each in the same language. When the comparison of strings puts
  \<open>Alpha\<close> before \<open>Bravo\<close>, the card of \<open>Alpha\<close> comes first.\<close>

lemma ex_alpha_before_bravo:
  assumes "0 < lc (ascii ''Bravo'') (ascii ''Alpha'')"
  shows "\<exists>a b. allCards lc True
            [ex_story ''st1'' (ascii ''Bravo'') ''fr'' ex_card_doc,
             ex_story ''st2'' (ascii ''Alpha'') ''fr'' ex_card_doc] = Inr [a, b]
          \<and> c_storyTitle a = ascii ''Alpha'' \<and> c_storyTitle b = ascii ''Bravo''"
proof -
  have cl: "list_all story_closed
      [ex_story ''st1'' (ascii ''Bravo'') ''fr'' ex_card_doc,
       ex_story ''st2'' (ascii ''Alpha'') ''fr'' ex_card_doc]"
    by (simp add: ex_story_closed)
  have ne: "ascii ''Bravo'' \<noteq> ascii ''Alpha''"
    by (simp add: ascii_def)
  show ?thesis
    unfolding allCards_def emit_cards_closed(1) [OF cl]
    using assms
    by (simp add: then_do_simps ex_story_cards_filtered js_sort_def card_compare_def
          ex_card_keys ne)
qed

text \<open>
  C8 on the code. The comparison function of the sort tells two titles apart by \<open>!==\<close>
  and then orders them by \<open>localeCompare\<close>, which gives zero on two different strings
  that are canonically equivalent. Here the first story is titled \<open>U+00E9\<close> and
  translated to French, the second is titled \<open>e\<close> followed by \<open>U+0301\<close> and translated
  to German, and content filtering leaves one card for each. For every comparison of
  strings that gives zero on the two titles, as the platform's does, and puts \<open>de\<close>
  before \<open>fr\<close>, the comparison function gives zero on the two cards, in both
  directions, without looking at the languages; the sort leaves the French card first;
  and the list is not in the lexicographic order of title, then language, then source
  text, which puts the German card first.
\<close>

theorem allCards_equivalent_titles:
  assumes "lc [233] [101, 769] = 0" and "lc [101, 769] [233] = 0"
    and "0 < lc (ascii ''fr'') (ascii ''de'')" and "lc (ascii ''de'') (ascii ''fr'') < 0"
  shows "\<exists>a b. allCards lc True ex_accent_stories = Inr [a, b]
          \<and> c_storyTitle a = [233] \<and> c_language a = ascii ''fr''
          \<and> c_storyTitle b = [101, 769] \<and> c_language b = ascii ''de''
          \<and> card_compare lc a b = 0 \<and> card_compare lc b a = 0
          \<and> \<not> lex_le lc (card_key a) (card_key b)
          \<and> lex_le lc (card_key b) (card_key a)"
proof -
  have cl: "list_all story_closed ex_accent_stories"
    by (simp add: ex_accent_stories_def ex_story_closed)
  have c: "concat (map (cards_of_story True) ex_accent_stories)
     = [make_card (ex_story ''st1'' [233] ''fr'' ex_card_doc) (ex_translation ''fr'' ex_card_doc)
          (ascii ''sx'') ex_sx (ex_variant ''v1'' neutral ''ok'')
          (context_of True ex_card_doc (ascii ''sx'')),
        make_card (ex_story ''st2'' [101, 769] ''de'' ex_card_doc) (ex_translation ''de'' ex_card_doc)
          (ascii ''sx'') ex_sx (ex_variant ''v1'' neutral ''ok'')
          (context_of True ex_card_doc (ascii ''sx''))]"
    by (simp add: ex_accent_stories_def ex_story_cards_filtered)
  show ?thesis
    unfolding allCards_def emit_cards_closed(1) [OF cl] c
    using assms
    by (simp add: then_do_simps js_sort_def card_compare_def ex_card_keys lex_le_def
          card_key_def)
qed

theorem allCards_equivalent_titles_witness:
  "ex_locale_compare [233] [101, 769] = 0
   \<and> ex_locale_compare [101, 769] [233] = 0
   \<and> 0 < ex_locale_compare (ascii ''fr'') (ascii ''de'')
   \<and> ex_locale_compare (ascii ''de'') (ascii ''fr'') < 0
   \<and> (\<exists>a b. allCards ex_locale_compare True ex_accent_stories = Inr [a, b]
          \<and> c_storyTitle a = [233] \<and> c_language a = ascii ''fr''
          \<and> c_storyTitle b = [101, 769] \<and> c_language b = ascii ''de''
          \<and> card_compare ex_locale_compare a b = 0 \<and> card_compare ex_locale_compare b a = 0
          \<and> \<not> lex_le ex_locale_compare (card_key a) (card_key b)
          \<and> lex_le ex_locale_compare (card_key b) (card_key a))"
proof -
  have 1: "ex_locale_compare [233] [101, 769] = 0"
    and 2: "ex_locale_compare [101, 769] [233] = 0"
    by (simp_all add: ex_locale_compare_def)
  have 3: "0 < ex_locale_compare (ascii ''fr'') (ascii ''de'')"
    and 4: "ex_locale_compare (ascii ''de'') (ascii ''fr'') < 0"
    by (simp_all add: ex_locale_compare_def ascii_def)
  from allCards_equivalent_titles [of ex_locale_compare, OF 1 2 3 4] 1 2 3 4 show ?thesis
    by blast
qed


section \<open>Properties of the mock translator\<close>

lemma ex_split:
  "split_into_segments (ascii ''Hi. You!  ok'') = [ascii ''Hi.'', ascii ''You!'', ascii ''ok'']"
  by (simp add: split_into_segments_def js_trim_def is_js_space_def is_sentence_end_def ascii_def)

lemma ex_split_blank: "split_into_segments (ascii ''  '') = []"
  by (simp add: split_into_segments_def js_trim_def is_js_space_def ascii_def)

lemma emitted_jobs_append: "emitted_jobs (xs @ ys) = emitted_jobs xs @ emitted_jobs ys"
  by (induction xs rule: emitted_jobs.induct) simp_all

lemma enqueue_timer_last:
  "\<forall>u \<in> set us. fst u \<le> fst t \<Longrightarrow> enqueue_timer t us = us @ [t]"
  by (induction us) auto

lemma fold_set_timeout:
  "fold (\<lambda>i. set_timeout (BaseTimer i) (500 + i * 650)) [0..<m] st
     = st\<lparr>m_timers := fold (\<lambda>i. enqueue_timer (500 + i * 650, BaseTimer i)) [0..<m] (m_timers st)\<rparr>"
  by (induction m) (simp_all add: set_timeout_def)

lemma base_timers_queue:
  "fold (\<lambda>i. enqueue_timer (500 + i * 650, BaseTimer i)) [0..<m] []
     = map (\<lambda>i. (500 + i * 650, BaseTimer i)) [0..<m]"
proof (induction m)
  case 0
  then show ?case by simp
next
  case (Suc m)
  have "enqueue_timer (500 + m * 650, BaseTimer m) (map (\<lambda>i. (500 + i * 650, BaseTimer i)) [0..<m])
      = map (\<lambda>i. (500 + i * 650, BaseTimer i)) [0..<m] @ [(500 + m * 650, BaseTimer m)]"
    by (rule enqueue_timer_last) auto
  with Suc show ?case by simp
qed

lemma start_state:
  fixes caller now storyText
  defines "segs \<equiv> map initial_segment (enumerate 0 (split_into_segments storyText))"
  defines "job \<equiv> \<lparr>job_id = ascii ''job-'' @ decimal now, segments = segs, ready = False\<rparr>"
  shows "start_mock_translation caller now storyText
     = \<lparr>m_job = job, m_cancelled = False,
        m_timers = map (\<lambda>i. (500 + i * 650, BaseTimer i)) [0..<length segs]
                   @ [(500 + length segs * 650 + 600, FinalTimer)],
        m_log = [OnDoc None, OnJob job]\<rparr>"
proof -
  have "enqueue_timer (500 + length segs * 650 + 600, FinalTimer)
          (map (\<lambda>i. (500 + i * 650, BaseTimer i)) [0..<length segs])
      = map (\<lambda>i. (500 + i * 650, BaseTimer i)) [0..<length segs]
        @ [(500 + length segs * 650 + 600, FinalTimer)]"
    by (rule enqueue_timer_last) auto
  then show ?thesis
    unfolding start_mock_translation_def Let_def segs_def [symmetric] job_def [symmetric]
      fold_set_timeout
    by (simp add: set_timeout_def base_timers_queue)
qed

lemma initial_segment_pending:
  "spanStage (initial_segment e) = stage_pending" "baseStage (initial_segment e) = stage_pending"
  by (cases e; simp add: initial_segment_def)+

lemma not_all_ready_if_pending:
  "list_all (\<lambda>s. spanStage s = stage_pending) (segments j) \<Longrightarrow> segments j \<noteq> [] \<Longrightarrow>
   \<not> all_segments_ready j"
  by (cases "segments j") (simp_all add: all_segments_ready_def)

lemma job_ok_waiting:
  "\<not> ready j \<Longrightarrow> list_all (\<lambda>s. spanStage s = stage_pending) (segments j) \<Longrightarrow>
   length (segments j) = n \<Longrightarrow> job_ok n j"
  using not_all_ready_if_pending [of j]
  by (auto simp: job_ok_def ready_is_and_def)

lemma mock_inv_start:
  "mock_inv (length (split_into_segments storyText)) (start_mock_translation caller now storyText)"
proof -
  let ?segs = "map initial_segment (enumerate 0 (split_into_segments storyText))"
  let ?n = "length (split_into_segments storyText)"
  let ?job = "\<lparr>job_id = ascii ''job-'' @ decimal now, segments = ?segs, ready = False\<rparr>"
  have pend: "list_all (\<lambda>s. spanStage s = stage_pending) ?segs"
    by (simp add: list_all_iff initial_segment_pending)
  have len: "length ?segs = ?n" by simp
  have ok: "job_ok ?n ?job"
    by (rule job_ok_waiting) (simp_all add: pend)
  have wait: "phase_waiting ?n 0 (start_mock_translation caller now storyText)"
    unfolding start_state phase_waiting_def
    using pend by (simp add: comp_def)
  show ?thesis
    unfolding mock_inv_def
    using ok wait by (auto simp: start_state)
qed

lemma mock_inv_cancel: "mock_inv n st \<Longrightarrow> mock_inv n (cancel st)"
  by (simp add: mock_inv_def cancel_def emitted_jobs_append)

lemma mock_inv_call_back:
  assumes "list_all (job_ok n) (emitted_jobs (m_log st))"
    and "length (segments (m_job st)) = n"
    and "list_all (job_ok n) (emitted_jobs [ev])"
    and "m_timers st = [] \<or> (\<not> m_cancelled st \<and> (\<exists>k. phase_waiting n k st))"
  shows "mock_inv n (call_back caller ev st)"
proof -
  have 1: "mock_inv n (st\<lparr>m_log := m_log st @ [ev]\<rparr>)"
    using assms by (auto simp: mock_inv_def emitted_jobs_append phase_waiting_def)
  show ?thesis
    by (cases "calls_cancel caller ev") (simp_all add: call_back_def Let_def 1 mock_inv_cancel)
qed

lemma base_mut_in_range:
  assumes "k < length (segments j)"
  shows "segments (base_mut k j)
           = (segments j)[k := (segments j ! k)\<lparr>baseStage := stage_ready,
                 baseText := Some ([171] @ seg_source (segments j ! k) @ [187])\<rparr>]"
    and "ready (base_mut k j) = ready j"
  using assms by (simp_all add: base_mut_def js_index_def)

lemma list_all_update:
  "list_all P xs \<Longrightarrow> P x \<Longrightarrow> list_all P (xs[k := x])"
  by (auto simp: list_all_iff dest: set_update_subset_insert [THEN subsetD])

lemma take_Suc_update:
  "k < length xs \<Longrightarrow> take (Suc k) (xs[k := x]) = take k xs @ [x]"
  by (simp add: take_Suc_conv_app_nth)

lemma mock_inv_base_timer:
  assumes inv: "list_all (job_ok n) (emitted_jobs (m_log st))" "length (segments (m_job st)) = n"
    and nc: "\<not> m_cancelled st"
    and k: "k < n"
    and rest: "map snd (m_timers st) = map BaseTimer [Suc k..<n] @ [FinalTimer]"
    and nr: "\<not> ready (m_job st)"
    and sp: "list_all (\<lambda>s. spanStage s = stage_pending) (segments (m_job st))"
    and bs: "list_all (\<lambda>s. baseStage s = stage_ready) (take k (segments (m_job st)))"
  shows "mock_inv n (run_timer caller (BaseTimer k) st)"
proof -
  let ?j = "m_job st"
  let ?next = "base_mut k ?j"
  from k inv(2) have kl: "k < length (segments ?j)" by simp
  note bm = base_mut_in_range [OF kl]
  have len: "length (segments ?next) = n"
    by (simp add: bm inv(2))
  have nr': "\<not> ready ?next" by (simp add: bm nr)
  have sp': "list_all (\<lambda>s. spanStage s = stage_pending) (segments ?next)"
    unfolding bm(1) using sp kl
    by (intro list_all_update) (simp_all add: list_all_length)
  have bs': "list_all (\<lambda>s. baseStage s = stage_ready) (take (Suc k) (segments ?next))"
    unfolding bm(1) take_Suc_update [OF kl] using bs by simp
  have ok: "job_ok n ?next"
    by (rule job_ok_waiting [OF nr' sp' len])
  have wait: "phase_waiting n (Suc k) (st\<lparr>m_job := ?next\<rparr>)"
    unfolding phase_waiting_def using k rest nr' sp' bs' by simp
  have "mock_inv n (call_back caller (OnJob ?next) (st\<lparr>m_job := ?next\<rparr>))"
    by (rule mock_inv_call_back) (use inv(1) len ok nc wait in auto)
  then show ?thesis
    by (simp add: run_timer_def update_job_def nc Let_def)
qed

lemma final_mut_ready:
  assumes "list_all (\<lambda>s. baseStage s = stage_ready) (segments j)"
  shows "job_ok n (final_mut j)"
  using assms
  by (simp add: job_ok_def ready_is_and_def final_mut_def all_segments_ready_def list_all_iff)

lemma mock_inv_no_timers:
  "list_all (job_ok n) (emitted_jobs (m_log st)) \<Longrightarrow> length (segments (m_job st)) = n \<Longrightarrow>
   m_timers st = [] \<Longrightarrow> mock_inv n st"
  by (simp add: mock_inv_def)

lemma mock_inv_final_timer:
  assumes inv: "list_all (job_ok n) (emitted_jobs (m_log st))" "length (segments (m_job st)) = n"
    and nc: "\<not> m_cancelled st"
    and rest: "m_timers st = []"
    and bs: "list_all (\<lambda>s. baseStage s = stage_ready) (segments (m_job st))"
  shows "mock_inv n (run_timer caller FinalTimer st)"
proof -
  let ?next = "final_mut (m_job st)"
  let ?st1 = "call_back caller (OnJob ?next) (st\<lparr>m_job := ?next\<rparr>)"
  have len: "length (segments ?next) = n"
    by (simp add: final_mut_def inv(2))
  have 1: "mock_inv n ?st1"
    by (rule mock_inv_call_back)
      (use inv(1) len final_mut_ready [OF bs] rest in auto)
  have t1: "m_timers ?st1 = []"
    by (simp add: call_back_def cancel_def Let_def rest)
  have "mock_inv n (call_back caller (OnDoc (Some (build_doc caller (m_job ?st1)))) ?st1)"
    by (rule mock_inv_call_back) (use 1 t1 in \<open>auto simp: mock_inv_def\<close>)
  then show ?thesis
    by (simp add: run_timer_def update_job_def nc Let_def)
qed

lemma mock_inv_tick:
  assumes "mock_inv n st"
  shows "mock_inv n (tick caller st)"
proof (cases "m_timers st")
  case Nil
  with assms show ?thesis by (simp add: tick_def)
next
  case (Cons dt rest)
  obtain delay t where dt: "dt = (delay, t)" by (cases dt)
  from assms Cons obtain k where nc: "\<not> m_cancelled st" and w: "phase_waiting n k st"
    by (auto simp: mock_inv_def)
  from assms have inv: "list_all (job_ok n) (emitted_jobs (m_log st))"
    "length (segments (m_job st)) = n"
    by (simp_all add: mock_inv_def)
  let ?st' = "st\<lparr>m_timers := rest\<rparr>"
  from w have kn: "k \<le> n"
    and tm: "t # map snd rest = map BaseTimer [k..<n] @ [FinalTimer]"
    and nr: "\<not> ready (m_job st)"
    and sp: "list_all (\<lambda>s. spanStage s = stage_pending) (segments (m_job st))"
    and bs: "list_all (\<lambda>s. baseStage s = stage_ready) (take k (segments (m_job st)))"
    by (simp_all add: phase_waiting_def Cons dt)
  have tk: "tick caller st = run_timer caller t ?st'"
    by (simp add: tick_def Cons dt)
  show ?thesis
  proof (cases "k < n")
    case True
    with tm have t: "t = BaseTimer k" and r: "map snd rest = map BaseTimer [Suc k..<n] @ [FinalTimer]"
      by (simp_all add: upt_conv_Cons)
    have "mock_inv n (run_timer caller (BaseTimer k) ?st')"
      by (rule mock_inv_base_timer) (use inv nc True r nr sp bs in simp_all)
    then show ?thesis by (simp add: tk t)
  next
    case False
    with kn have "k = n" by simp
    with tm have t: "t = FinalTimer" and r: "rest = []" by simp_all
    from bs \<open>k = n\<close> inv(2) have all: "list_all (\<lambda>s. baseStage s = stage_ready) (segments (m_job st))"
      by simp
    have "mock_inv n (run_timer caller FinalTimer ?st')"
      by (rule mock_inv_final_timer) (use inv nc r all in simp_all)
    then show ?thesis by (simp add: tk t)
  qed
qed

lemma mock_inv_run: "mock_inv n st \<Longrightarrow> mock_inv n (run caller acts st)"
  unfolding run_def
  by (induction acts arbitrary: st) (auto simp: act_def mock_inv_tick mock_inv_cancel split: Action.splits)

text \<open>
  C5, as the code has it. Whatever timers have fired and whenever \<open>cancel\<close> was called, a
  job given to \<open>onJob\<close> with \<open>ready\<close> true has both stages of every segment ready; and when
  the story text has a segment, \<open>ready\<close> is true exactly when both stages of every segment
  are ready.
\<close>

theorem mock_job_ready:
  "list_all (\<lambda>j. ready j \<longrightarrow> all_segments_ready j)
     (emitted_jobs (m_log (run caller acts (start_mock_translation caller now storyText))))
   \<and> (split_into_segments storyText \<noteq> [] \<longrightarrow>
        list_all ready_is_and
          (emitted_jobs (m_log (run caller acts (start_mock_translation caller now storyText)))))"
proof -
  let ?n = "length (split_into_segments storyText)"
  let ?jobs = "emitted_jobs (m_log (run caller acts (start_mock_translation caller now storyText)))"
  from mock_inv_run [OF mock_inv_start] have ok: "list_all (job_ok ?n) ?jobs"
    by (simp add: mock_inv_def)
  have 1: "list_all (\<lambda>j. ready j \<longrightarrow> all_segments_ready j) ?jobs"
    using ok by (auto simp: list_all_iff job_ok_def ready_is_and_def split: if_splits)
  have 2: "split_into_segments storyText \<noteq> [] \<longrightarrow> list_all ready_is_and ?jobs"
    using ok by (auto simp: list_all_iff job_ok_def)
  from 1 2 show ?thesis by simp
qed


theorem mock_job_ready_witness:
  "split_into_segments (ascii ''Hi. You!'') \<noteq> []
   \<and> list_all ready_is_and
        (emitted_jobs (m_log (run ex_caller [Tick, Tick, Tick]
           (start_mock_translation ex_caller 0 (ascii ''Hi. You!'')))))
   \<and> list_all ready_is_and
        (emitted_jobs (m_log (run ex_caller [Tick, Cancel, Tick]
           (start_mock_translation ex_caller 0 (ascii ''Hi. You!'')))))"
proof -
  have s: "split_into_segments (ascii ''Hi. You!'') = [ascii ''Hi.'', ascii ''You!'']"
    by (simp add: split_into_segments_def js_trim_def is_js_space_def is_sentence_end_def
          ascii_def)
  then have ne: "split_into_segments (ascii ''Hi. You!'') \<noteq> []" by simp
  from mock_job_ready [of ex_caller "[Tick, Tick, Tick]" 0 "ascii ''Hi. You!''"]
    mock_job_ready [of ex_caller "[Tick, Cancel, Tick]" 0 "ascii ''Hi. You!''"] ne
  show ?thesis by blast
qed

lemma ex_blank_start:
  "m_log (start_mock_translation ex_caller 0 [])
     = [OnDoc None, OnJob \<lparr>job_id = ascii ''job-0'', segments = [], ready = False\<rparr>]"
  by (simp add: start_state split_into_segments_def js_trim_def decimal.simps ascii_def)

theorem mock_job_ready_counterexample:
  "\<not> list_all ready_is_and (emitted_jobs (m_log (start_mock_translation ex_caller 0 [])))"
  by (simp add: ex_blank_start ready_is_and_def all_segments_ready_def)

section \<open>Cancelling a request of the mock translator\<close>

lemma callbacks_append: "callbacks (xs @ ys) = callbacks xs @ callbacks ys"
  by (simp add: callbacks_def)

lemma tick_no_timers: "m_timers st = [] \<Longrightarrow> tick caller st = st"
  by (simp add: tick_def)

lemma no_timers_run:
  "m_timers st = [] \<Longrightarrow>
   m_timers (run caller acts st) = [] \<and> callbacks (m_log (run caller acts st)) = callbacks (m_log st)"
  unfolding run_def
proof (induction acts arbitrary: st)
  case Nil
  then show ?case by simp
next
  case (Cons a acts)
  have 1: "m_timers (act caller a st) = []"
    using Cons.prems by (cases a) (simp_all add: act_def tick_no_timers cancel_def)
  have 2: "callbacks (m_log (act caller a st)) = callbacks (m_log st)"
    using Cons.prems
    by (cases a) (simp_all add: act_def tick_no_timers cancel_def callbacks_def)
  from Cons.IH [OF 1] 2 show ?case by simp
qed

text \<open>A call of \<open>cancel\<close> between two tasks of the event loop clears every timer, and no
  callback is called afterwards.\<close>

lemma cancel_between_tasks:
  "callbacks (m_log (run caller acts (cancel st))) = callbacks (m_log st)"
proof -
  have "m_timers (cancel st) = []" by (simp add: cancel_def)
  from no_timers_run [OF this, of caller acts]
  show ?thesis by (simp add: cancel_def callbacks_def)
qed

text \<open>\<open>update_job\<close> looks at the flag; the call of \<open>onDoc\<close> after it in the last timer does
  not.\<close>

lemma update_job_cancelled: "m_cancelled st \<Longrightarrow> update_job caller mut st = st"
  by (simp add: update_job_def)

lemma final_timer_cancelled:
  "m_cancelled st \<Longrightarrow>
   callbacks (m_log (run_timer caller FinalTimer st))
     = callbacks (m_log st) @ [OnDoc (Some (build_doc caller (m_job st)))]"
  by (simp add: run_timer_def update_job_cancelled call_back_def cancel_def callbacks_def Let_def)

lemma ex_hi_split: "split_into_segments (ascii ''Hi.'') = [ascii ''Hi.'']"
  by (simp add: split_into_segments_def js_trim_def is_js_space_def is_sentence_end_def ascii_def)

lemma ex_hi_start:
  "start_mock_translation caller 0 (ascii ''Hi.'')
     = \<lparr>m_job = \<lparr>job_id = ascii ''job-0'',
                  segments = [\<lparr>seg_id = ascii ''seg-1'', seg_source = ascii ''Hi.'',
                                baseText = None, baseStage = stage_pending,
                                spanStage = stage_pending, variantCount = 0\<rparr>],
                  ready = False\<rparr>,
        m_cancelled = False,
        m_timers = [(500, BaseTimer 0), (1750, FinalTimer)],
        m_log = [OnDoc None,
                 OnJob \<lparr>job_id = ascii ''job-0'',
                        segments = [\<lparr>seg_id = ascii ''seg-1'', seg_source = ascii ''Hi.'',
                                      baseText = None, baseStage = stage_pending,
                                      spanStage = stage_pending, variantCount = 0\<rparr>],
                        ready = False\<rparr>]\<rparr>"
  unfolding start_state ex_hi_split
  by (simp add: initial_segment_def decimal.simps ascii_def)

text \<open>
  C9 on the code. The caller's \<open>onJob\<close> calls \<open>cancel\<close> when the job it is given is ready.
  For the story text \<open>Hi.\<close>, after the two timers the log ends with the ready job, the
  call of \<open>cancel\<close>, and then the call of \<open>onDoc\<close> with the document.
\<close>

theorem cancel_in_onJob_then_onDoc:
  "drop 3 (m_log (run ex_cancel_on_ready [Tick, Tick]
             (start_mock_translation ex_cancel_on_ready 0 (ascii ''Hi.''))))
     = [OnJob \<lparr>job_id = ascii ''job-0'',
               segments = [\<lparr>seg_id = ascii ''seg-1'', seg_source = ascii ''Hi.'',
                             baseText = Some ([171] @ ascii ''Hi.'' @ [187]),
                             baseStage = stage_ready, spanStage = stage_ready,
                             variantCount = 6\<rparr>],
               ready = True\<rparr>,
        CancelCall,
        OnDoc (Some \<lparr>tokens = [], spans = []\<rparr>)]"
  unfolding ex_hi_start
  by (simp add: run_def act_def tick_def run_timer_def update_job_def
        call_back_def cancel_def base_mut_def final_mut_def js_index_def
        ex_cancel_on_ready_def Let_def)

text \<open>The first callback of a request is \<open>onDoc(null)\<close>: the document on display is
  cleared before the mock translator sends its document.\<close>

lemma call_back_log: "\<exists>more. m_log (call_back caller ev st) = m_log st @ more"
  by (simp add: call_back_def cancel_def Let_def)

lemma update_job_log: "\<exists>more. m_log (update_job caller mut st) = m_log st @ more"
  using call_back_log [of caller "OnJob (mut (m_job st))" "st\<lparr>m_job := mut (m_job st)\<rparr>"]
  by (simp add: update_job_def Let_def)

lemma run_timer_log: "\<exists>more. m_log (run_timer caller t st) = m_log st @ more"
proof (cases t)
  case (BaseTimer i)
  then show ?thesis by (simp add: run_timer_def update_job_log)
next
  case FinalTimer
  obtain m1 where 1: "m_log (update_job caller final_mut st) = m_log st @ m1"
    using update_job_log by blast
  obtain m2 where
    "m_log (call_back caller
        (OnDoc (Some (build_doc caller (m_job (update_job caller final_mut st)))))
        (update_job caller final_mut st))
      = m_log (update_job caller final_mut st) @ m2"
    using call_back_log by blast
  with 1 show ?thesis by (simp add: run_timer_def FinalTimer Let_def)
qed

lemma act_log: "\<exists>more. m_log (act caller a st) = m_log st @ more"
proof (cases a)
  case Tick
  show ?thesis
  proof (cases "m_timers st")
    case Nil
    then show ?thesis by (simp add: act_def Tick tick_def)
  next
    case (Cons dt rest)
    obtain delay t where "dt = (delay, t)" by (cases dt)
    with Cons run_timer_log [of caller t "st\<lparr>m_timers := rest\<rparr>"] show ?thesis
      by (simp add: act_def Tick tick_def)
  qed
next
  case Cancel
  then show ?thesis by (simp add: act_def cancel_def)
qed

lemma run_log: "\<exists>more. m_log (run caller acts st) = m_log st @ more"
  unfolding run_def
proof (induction acts arbitrary: st)
  case Nil
  then show ?case by simp
next
  case (Cons a acts)
  obtain m1 where 1: "m_log (act caller a st) = m_log st @ m1"
    using act_log by blast
  obtain m2 where "m_log (fold (act caller) acts (act caller a st)) = m_log (act caller a st) @ m2"
    using Cons.IH by blast
  with 1 show ?case by simp
qed

lemma mock_clears_document_first:
  "\<exists>more. m_log (run caller acts (start_mock_translation caller now storyText))
            = OnDoc None # more"
  using run_log [of caller acts "start_mock_translation caller now storyText"]
  by (auto simp: start_state)


end
